theory Spec2Isabelle
  imports Main "HOL-Library.Sublist"
begin

section \<open>Python values\<close>

text \<open>
  A Python \<^verbatim>\<open>str\<close> is modelled as a \<^typ>\<open>string\<close>: a list of characters, one per code
  point (code points below 256). Python's \<^verbatim>\<open>int\<close> is \<^typ>\<open>int\<close>; \<^verbatim>\<open>//\<close> is \<open>div\<close>, which
  rounds towards minus infinity on \<^typ>\<open>int\<close> as Python does. An exception is a value of
  \<open>error\<close>, and a function that can raise returns \<open>error + 'a\<close> with \<open>Inl\<close> for the raise.
\<close>

datatype error =
    ValueError          \<comment> \<open>\<^verbatim>\<open>raise ValueError(...)\<close>, the segmenter's configuration error\<close>
  | IndexError          \<comment> \<open>\<^verbatim>\<open>self.separators[-1]\<close> on an empty list\<close>
  | RecursionError      \<comment> \<open>the interpreter's recursion budget is used up\<close>
  | KeyError            \<comment> \<open>\<^verbatim>\<open>q["query"]\<close> on a dict without that key\<close>
  | TypeError           \<comment> \<open>\<^verbatim>\<open>len(None)\<close>, \<^verbatim>\<open>for q in None\<close>, \<^verbatim>\<open>chr(10).join(None)\<close>\<close>
  | ServiceError        \<comment> \<open>anything an external service or library raises\<close>

text \<open>\<^verbatim>\<open>s[:n]\<close>: a negative \<open>n\<close> counts from the end.\<close>

definition py_prefix :: "int \<Rightarrow> 'a list \<Rightarrow> 'a list" where
  "py_prefix n xs = (if 0 \<le> n then take (nat n) xs else take (nat (int (length xs) + n)) xs)"

text \<open>\<^verbatim>\<open>str.isspace\<close> on one character and \<^verbatim>\<open>str.strip()\<close>.\<close>

definition isspace :: "char \<Rightarrow> bool" where
  "isspace c = (c \<in> {CHR 0x09, CHR 0x0A, CHR 0x0B, CHR 0x0C, CHR 0x0D, CHR 0x1C, CHR 0x1D,
                      CHR 0x1E, CHR 0x1F, CHR 0x20, CHR 0x85, CHR 0xA0})"

definition strip :: "string \<Rightarrow> string" where
  "strip s = rev (dropWhile isspace (rev (dropWhile isspace s)))"

text \<open>\<^verbatim>\<open>separator.join(docs)\<close>.\<close>

fun join :: "string \<Rightarrow> string list \<Rightarrow> string" where
  "join sep [] = []"
| "join sep [x] = x"
| "join sep (x # y # ys) = x @ sep @ join sep (y # ys)"

text \<open>\<^verbatim>\<open>s in text\<close> for strings: \<open>s\<close> occurs in \<open>text\<close> as a contiguous run.\<close>

fun contains :: "string \<Rightarrow> string \<Rightarrow> bool" where
  "contains s [] = (s = [])"
| "contains s (c # cs) = (prefix s (c # cs) \<or> contains s cs)"

text \<open>
  \<^verbatim>\<open>text.split(separator)\<close> for a non-empty separator: the pieces between the
  non-overlapping occurrences of the separator, read from the left. (Python raises
  on an empty separator; the segmenter never passes one, and the model then cuts nowhere.)
\<close>

function split_str :: "string \<Rightarrow> string \<Rightarrow> string list" where
  "split_str sep [] = [[]]"
| "split_str sep (c # cs) =
     (if sep \<noteq> [] \<and> prefix sep (c # cs)
      then [] # split_str sep (drop (length sep) (c # cs))
      else (case split_str sep cs of [] \<Rightarrow> [[c]] | p # ps \<Rightarrow> (c # p) # ps))"
  by pat_completeness auto
termination
  by (relation "measure (\<lambda>(sep, t). length t)") (auto simp: Suc_le_eq)

section \<open>The text segmenter (src/ai/text_splitter.py)\<close>

record TextSplitter =
  chunk_size :: int
  chunk_overlap :: int

record RecursiveCharacterTextSplitter = TextSplitter +
  separators :: "string list"

text \<open>\<^verbatim>\<open>TextSplitter.__init__\<close>: stores both parameters, then raises when the overlap is
  not below the size.\<close>

definition TextSplitter_init :: "int \<Rightarrow> int \<Rightarrow> error + TextSplitter" where
  "TextSplitter_init csize coverlap =
     (if coverlap \<ge> csize then Inl ValueError
      else Inr \<lparr>chunk_size = csize, chunk_overlap = coverlap\<rparr>)"

definition default_separators :: "string list" where
  "default_separators =
     [[CHR 0x0A, CHR 0x0A], [CHR 0x0A], ''.'', '','', ''>'', ''<'', '' '', '''']"

text \<open>\<^verbatim>\<open>RecursiveCharacterTextSplitter.__init__\<close>: the base constructor first, then
  \<^verbatim>\<open>separators or [...]\<close> (\<open>None\<close> and the empty list both give the default list).\<close>

definition RecursiveCharacterTextSplitter_init ::
  "int \<Rightarrow> int \<Rightarrow> string list option \<Rightarrow> error + RecursiveCharacterTextSplitter" where
  "RecursiveCharacterTextSplitter_init csize coverlap seps =
     (case TextSplitter_init csize coverlap of
        Inl e \<Rightarrow> Inl e
      | Inr base \<Rightarrow>
          Inr \<lparr>chunk_size = chunk_size base, chunk_overlap = chunk_overlap base,
               separators = (case seps of None \<Rightarrow> default_separators
                             | Some ss \<Rightarrow> if ss = [] then default_separators else ss)\<rparr>)"

text \<open>\<^verbatim>\<open>_join_docs\<close>: the joined and stripped text, \<open>None\<close> when nothing is left.\<close>

definition join_docs :: "string list \<Rightarrow> string \<Rightarrow> string option" where
  "join_docs docs separator =
     (let text = strip (join separator docs) in if text = [] then None else Some text)"

text \<open>
  The inner \<^verbatim>\<open>while\<close> of \<^verbatim>\<open>merge_splits\<close>: pieces leave the front of \<open>current_doc\<close>
  while the running total is above the overlap, or the next piece would not fit and
  the total is positive; the loop breaks when \<open>current_doc\<close> is empty.
\<close>

fun pop_front :: "'a TextSplitter_scheme \<Rightarrow> int \<Rightarrow> string list \<Rightarrow> int \<Rightarrow> string list \<times> int" where
  "pop_front sp len [] tot = ([], tot)"
| "pop_front sp len (x # xs) tot =
     (if tot > chunk_overlap sp \<or> (tot + len > chunk_size sp \<and> tot > 0)
      then pop_front sp len xs (tot - int (length x))
      else (x # xs, tot))"

text \<open>One round of the \<^verbatim>\<open>for d in splits\<close> loop of \<^verbatim>\<open>merge_splits\<close>, on the loop's
  state \<open>(docs, current_doc, tot)\<close>. \<open>tot\<close> (the code's \<^verbatim>\<open>total\<close>) adds up the lengths of the pieces only.\<close>

definition merge_step ::
  "'a TextSplitter_scheme \<Rightarrow> string \<Rightarrow> string list \<times> string list \<times> int \<Rightarrow> string
     \<Rightarrow> string list \<times> string list \<times> int" where
  "merge_step sp separator st d =
     (case st of (docs, current_doc, tot) \<Rightarrow>
        let len = int (length d) in
        (case (if tot + len \<ge> chunk_size sp \<and> current_doc \<noteq> []
               then (case pop_front sp len current_doc tot of (cd, t) \<Rightarrow>
                       ((case join_docs current_doc separator of
                           None \<Rightarrow> docs | Some doc \<Rightarrow> docs @ [doc]), cd, t))
               else (docs, current_doc, tot))
         of (docs', cd', tot') \<Rightarrow> (docs', cd' @ [d], tot' + len)))"

primrec merge_loop ::
  "'a TextSplitter_scheme \<Rightarrow> string \<Rightarrow> string list \<Rightarrow> string list \<times> string list \<times> int
     \<Rightarrow> string list \<times> string list \<times> int" where
  "merge_loop sp separator [] st = st"
| "merge_loop sp separator (d # ds) st = merge_loop sp separator ds (merge_step sp separator st d)"

definition merge_splits :: "'a TextSplitter_scheme \<Rightarrow> string list \<Rightarrow> string \<Rightarrow> string list" where
  "merge_splits sp splits separator =
     (case merge_loop sp separator splits ([], [], 0) of (docs, current_doc, tot) \<Rightarrow>
        (case join_docs current_doc separator of None \<Rightarrow> docs | Some doc \<Rightarrow> docs @ [doc]))"

text \<open>The separator \<^verbatim>\<open>split_text\<close> picks: the first of the list that is empty or occurs
  in the text, and the list's last one when none does.\<close>

fun choose_separator :: "string list \<Rightarrow> string \<Rightarrow> string \<Rightarrow> string" where
  "choose_separator [] text dflt = dflt"
| "choose_separator (s # ss) text dflt =
     (if s = [] then s else if contains s text then s else choose_separator ss text dflt)"

text \<open>
  The \<^verbatim>\<open>for s in splits\<close> loop of \<^verbatim>\<open>split_text\<close>, on \<open>good_splits\<close> and \<open>final_chunks\<close>;
  \<open>recurse\<close> is the recursive call \<^verbatim>\<open>self.split_text\<close>, whose exception leaves the loop.
\<close>

fun split_pieces ::
  "(string \<Rightarrow> error + string list) \<Rightarrow> 'a TextSplitter_scheme \<Rightarrow> string \<Rightarrow> string list
     \<Rightarrow> string list \<Rightarrow> string list \<Rightarrow> error + string list" where
  "split_pieces recurse sp separator [] good_splits final_chunks =
     Inr (if good_splits \<noteq> [] then final_chunks @ merge_splits sp good_splits separator
          else final_chunks)"
| "split_pieces recurse sp separator (s # ss) good_splits final_chunks =
     (if int (length s) < chunk_size sp
      then split_pieces recurse sp separator ss (good_splits @ [s]) final_chunks
      else
        (let flushed = (if good_splits \<noteq> []
                        then final_chunks @ merge_splits sp good_splits separator
                        else final_chunks)
         in case recurse s of
              Inl e \<Rightarrow> Inl e
            | Inr other_info \<Rightarrow> split_pieces recurse sp separator ss [] (flushed @ other_info)))"

text \<open>
  \<^verbatim>\<open>RecursiveCharacterTextSplitter.split_text\<close>. The method calls itself on every
  piece that is not shorter than \<open>chunk_size\<close>, with the same separators, and nothing in
  it makes the piece smaller when the separator does not occur (or when single
  characters are not shorter than \<open>chunk_size\<close>): the first argument is the number of
  nested calls the interpreter still allows, and running out of it is Python's
  \<^verbatim>\<open>RecursionError\<close>.
\<close>

primrec split_text ::
  "nat \<Rightarrow> RecursiveCharacterTextSplitter \<Rightarrow> string \<Rightarrow> error + string list" where
  "split_text 0 sp text = Inl RecursionError"
| "split_text (Suc fuel) sp text =
     (if separators sp = [] then Inl IndexError
      else
        (let separator = choose_separator (separators sp) text (last (separators sp));
             splits = (if separator \<noteq> [] then split_str separator text
                       else map (\<lambda>c. [c]) text)
         in split_pieces (split_text fuel sp) sp separator splits [] []))"

section \<open>Construction of the segmenter\<close>

text \<open>
  C8. Constructing the segmenter with \<open>chunk_overlap \<ge> chunk_size\<close> raises the
  configuration error (\<^verbatim>\<open>ValueError\<close> in the code) to the caller, and with
  \<open>chunk_overlap < chunk_size\<close> it raises nothing and returns the segmenter with the
  parameters it was given.
\<close>

theorem segmenter_construction:
  "(coverlap \<ge> csize \<longrightarrow>
      TextSplitter_init csize coverlap = Inl ValueError \<and>
      RecursiveCharacterTextSplitter_init csize coverlap seps = Inl ValueError) \<and>
   (coverlap < csize \<longrightarrow>
      TextSplitter_init csize coverlap = Inr \<lparr>chunk_size = csize, chunk_overlap = coverlap\<rparr> \<and>
      (\<exists>sp. RecursiveCharacterTextSplitter_init csize coverlap seps = Inr sp \<and>
            chunk_size sp = csize \<and> chunk_overlap sp = coverlap))"
  by (simp add: TextSplitter_init_def RecursiveCharacterTextSplitter_init_def)

theorem segmenter_construction_witness:
  "TextSplitter_init 10 10 = Inl ValueError \<and>
   RecursiveCharacterTextSplitter_init 10 10 None = Inl ValueError \<and>
   TextSplitter_init 10 2 = Inr \<lparr>chunk_size = 10, chunk_overlap = 2\<rparr> \<and>
   (\<exists>sp. RecursiveCharacterTextSplitter_init 10 2 None = Inr sp \<and>
         chunk_size sp = 10 \<and> chunk_overlap sp = 2)"
  using segmenter_construction [where csize = 10 and coverlap = 10 and seps = None]
    segmenter_construction [where csize = 10 and coverlap = 2 and seps = None]
  by simp

section \<open>Chunks and the chunk size\<close>

text \<open>
  C4 says that every chunk the segmenter produces is at most \<open>chunk_size\<close> long,
  separators included. \<^verbatim>\<open>merge_splits\<close> compares \<open>tot + len\<close> with \<open>chunk_size\<close>, where
  \<open>tot\<close> adds up the pieces without the separators that \<^verbatim>\<open>_join_docs\<close> puts between
  them: with \<open>chunk_size = 4\<close>, no overlap and the default separators, the text
  \<open>a b c\<close> is cut at the blanks into three pieces of total length 3, which is below 4,
  and they leave as the one chunk \<open>a b c\<close> of length 5. The chunk is made of pieces
  that were split as far as the separators go; it is not an indivisible piece.
\<close>

theorem split_text_chunk_exceeds_chunk_size:
  "RecursiveCharacterTextSplitter_init 4 0 None =
     Inr \<lparr>chunk_size = 4, chunk_overlap = 0, separators = default_separators\<rparr> \<and>
   split_text (Suc fuel)
     \<lparr>chunk_size = 4, chunk_overlap = 0, separators = default_separators\<rparr> ''a b c'' =
     Inr [''a b c''] \<and>
   int (length ''a b c'') > 4"
  by (simp add: RecursiveCharacterTextSplitter_init_def TextSplitter_init_def
      default_separators_def merge_splits_def merge_step_def join_docs_def strip_def isspace_def)

section \<open>No chunk is longer than the text\<close>

text \<open>The weight of a list of pieces: their lengths, and one separator for each.\<close>

definition wt :: "string \<Rightarrow> string list \<Rightarrow> nat" where
  "wt sep xs = sum_list (map (\<lambda>x. length x + length sep) xs)"

lemma wt_simps [simp]:
  "wt sep [] = 0"
  "wt sep (x # xs) = length x + length sep + wt sep xs"
  "wt sep (xs @ ys) = wt sep xs + wt sep ys"
  by (simp_all add: wt_def)

lemma length_join_wt: "xs \<noteq> [] \<Longrightarrow> length (join sep xs) + length sep = wt sep xs"
  by (induction sep xs rule: join.induct) simp_all

lemma length_strip: "length (strip s) \<le> length s"
proof -
  have "length (dropWhile isspace (rev (dropWhile isspace s))) \<le> length (rev (dropWhile isspace s))"
    by (rule length_dropWhile_le)
  also have "\<dots> \<le> length s" by (simp add: length_dropWhile_le)
  finally show ?thesis by (simp add: strip_def)
qed

lemma split_str_wt: "wt sep (split_str sep t) = length t + length sep"
proof (induction sep t rule: split_str.induct)
  case (1 sep)
  show ?case by simp
next
  case (2 sep c cs)
  show ?case
  proof (cases "sep \<noteq> [] \<and> prefix sep (c # cs)")
    case True
    then have "length sep \<le> length (c # cs)" by (auto dest: prefix_length_le)
    with True 2 show ?thesis by simp
  next
    case False
    with 2 show ?thesis by (cases "split_str sep cs") auto
  qed
qed

lemma chars_wt: "wt [] (map (\<lambda>c. [c]) t) = length t"
  by (induction t) simp_all

lemma pop_front_wt: "pop_front sp len cd tot = (cd', tot') \<Longrightarrow> wt sep cd' \<le> wt sep cd"
  by (induction sp len cd tot rule: pop_front.induct) (auto split: if_splits)

lemma join_docs_len:
  assumes "join_docs cd sep = Some doc"
  shows "length doc + length sep \<le> wt sep cd"
proof -
  from assms have d: "doc = strip (join sep cd)" and ne: "strip (join sep cd) \<noteq> []"
    by (auto simp: join_docs_def Let_def split: if_splits)
  have "cd \<noteq> []" using ne by (auto simp: strip_def)
  then have "length (join sep cd) + length sep = wt sep cd" by (rule length_join_wt)
  moreover have "length doc \<le> length (join sep cd)" unfolding d by (rule length_strip)
  ultimately show ?thesis by simp
qed

lemma merge_step_inv:
  assumes "merge_step sp sep (docs, cd, tot) d = (docs', cd', tot')"
    and "\<forall>x\<in>set docs. length x + length sep \<le> W"
    and "wt sep cd + wt sep (d # ds) \<le> W"
  shows "(\<forall>x\<in>set docs'. length x + length sep \<le> W) \<and> wt sep cd' + wt sep ds \<le> W"
proof (cases "tot + int (length d) \<ge> chunk_size sp \<and> cd \<noteq> []")
  case False
  with assms show ?thesis by (auto simp: merge_step_def Let_def)
next
  case True
  obtain c t where pf: "pop_front sp (int (length d)) cd tot = (c, t)"
    by (cases "pop_front sp (int (length d)) cd tot")
  from pop_front_wt[OF pf] have cw: "wt sep c \<le> wt sep cd" .
  from True pf assms(1) have *: "cd' = c @ [d]"
    "docs' = (case join_docs cd sep of None \<Rightarrow> docs | Some doc \<Rightarrow> docs @ [doc])"
    by (auto simp: merge_step_def Let_def)
  have "\<forall>x\<in>set docs'. length x + length sep \<le> W"
  proof (cases "join_docs cd sep")
    case None
    with * assms(2) show ?thesis by simp
  next
    case (Some doc)
    from join_docs_len[OF Some] assms(3) have "length doc + length sep \<le> W" by simp
    with Some * assms(2) show ?thesis by auto
  qed
  moreover have "wt sep cd' + wt sep ds \<le> W" using * cw assms(3) by simp
  ultimately show ?thesis by simp
qed

lemma merge_loop_inv:
  "merge_loop sp sep ds (docs, cd, tot) = (docs', cd', tot') \<Longrightarrow>
   \<forall>x\<in>set docs. length x + length sep \<le> W \<Longrightarrow>
   wt sep cd + wt sep ds \<le> W \<Longrightarrow>
   (\<forall>x\<in>set docs'. length x + length sep \<le> W) \<and> wt sep cd' \<le> W"
proof (induction ds arbitrary: docs cd tot)
  case Nil
  then show ?case by simp
next
  case (Cons d ds)
  obtain d1 c1 t1 where ms: "merge_step sp sep (docs, cd, tot) d = (d1, c1, t1)"
    by (cases "merge_step sp sep (docs, cd, tot) d") auto
  from merge_step_inv[OF ms Cons.prems(2) Cons.prems(3)]
  have i: "\<forall>x\<in>set d1. length x + length sep \<le> W" "wt sep c1 + wt sep ds \<le> W" by auto
  from Cons.prems(1) ms have "merge_loop sp sep ds (d1, c1, t1) = (docs', cd', tot')" by simp
  from Cons.IH[OF this i] show ?case .
qed

lemma merge_splits_len:
  assumes "x \<in> set (merge_splits sp splits sep)"
  shows "length x + length sep \<le> wt sep splits"
proof -
  obtain docs cd tot where ml: "merge_loop sp sep splits ([], [], 0) = (docs, cd, tot)"
    by (cases "merge_loop sp sep splits ([], [], 0)") auto
  have "(\<forall>x\<in>set docs. length x + length sep \<le> wt sep splits) \<and> wt sep cd \<le> wt sep splits"
    by (rule merge_loop_inv[OF ml]) simp_all
  moreover have "x \<in> set docs \<or> join_docs cd sep = Some x"
    using assms ml by (auto simp: merge_splits_def split: option.splits)
  ultimately show ?thesis using join_docs_len[of cd sep x] by auto
qed

lemma split_pieces_len:
  assumes rec: "\<And>s out c. recurse s = Inr out \<Longrightarrow> c \<in> set out \<Longrightarrow> length c \<le> length s"
  shows "split_pieces recurse sp sep ss good final = Inr chunks \<Longrightarrow>
    wt sep good + wt sep ss \<le> L + length sep \<Longrightarrow>
    \<forall>c\<in>set final. length c \<le> L \<Longrightarrow>
    c \<in> set chunks \<Longrightarrow> length c \<le> L"
proof (induction ss arbitrary: good final)
  case Nil
  then show ?case using merge_splits_len[of c sp good sep] by (auto split: if_splits)
next
  case (Cons s ss)
  show ?case
  proof (cases "int (length s) < chunk_size sp")
    case True
    with Cons.prems(1) have "split_pieces recurse sp sep ss (good @ [s]) final = Inr chunks"
      by simp
    from Cons.IH[OF this _ Cons.prems(3) Cons.prems(4)] Cons.prems(2) show ?thesis by simp
  next
    case False
    define flushed where
      "flushed = (if good \<noteq> [] then final @ merge_splits sp good sep else final)"
    from False Cons.prems(1) obtain other where o: "recurse s = Inr other"
      and sp: "split_pieces recurse sp sep ss [] (flushed @ other) = Inr chunks"
      by (auto simp: flushed_def Let_def split: sum.splits)
    have "\<forall>c\<in>set (flushed @ other). length c \<le> L"
    proof
      fix x assume "x \<in> set (flushed @ other)"
      then consider "x \<in> set final" | "x \<in> set (merge_splits sp good sep)" | "x \<in> set other"
        by (auto simp: flushed_def split: if_splits)
      then show "length x \<le> L"
      proof cases
        case 1
        with Cons.prems(3) show ?thesis by simp
      next
        case 2
        from merge_splits_len[OF 2] Cons.prems(2) show ?thesis by simp
      next
        case 3
        from rec[OF o 3] Cons.prems(2) show ?thesis by simp
      qed
    qed
    from Cons.IH[OF sp _ this Cons.prems(4)] Cons.prems(2) show ?thesis by simp
  qed
qed

lemma split_text_len:
  "split_text fuel sp t = Inr chunks \<Longrightarrow> c \<in> set chunks \<Longrightarrow> length c \<le> length t"
proof (induction fuel arbitrary: t chunks c)
  case 0
  then show ?case by simp
next
  case (Suc fuel)
  define sep where "sep = choose_separator (separators sp) t (last (separators sp))"
  define splits where "splits = (if sep \<noteq> [] then split_str sep t else map (\<lambda>c. [c]) t)"
  from Suc.prems(1) have sp: "split_pieces (split_text fuel sp) sp sep splits [] [] = Inr chunks"
    by (auto simp: sep_def splits_def Let_def split: if_splits)
  have w: "wt sep splits = length t + length sep"
    by (auto simp: splits_def split_str_wt chars_wt)
  show ?case
    by (rule split_pieces_len[OF _ sp _ _ Suc.prems(2)]) (use Suc.IH w in auto)
qed

section \<open>With the empty separator in the list, the segmenter returns\<close>

lemma contains_sublist: "contains s t = sublist s t"
  by (induction t) (auto simp: sublist_Cons_right)

lemma split_str_ne [simp]: "split_str sep t \<noteq> []"
  by (induction sep t rule: split_str.induct) (auto split: list.splits)

lemma split_str_hd_prefix: "prefix (hd (split_str sep t)) t"
  by (induction sep t rule: split_str.induct) (auto split: list.splits)

lemma split_str_sublist: "p \<in> set (split_str sep t) \<Longrightarrow> sublist p t"
proof (induction sep t arbitrary: p rule: split_str.induct)
  case (1 sep)
  then show ?case by simp
next
  case (2 sep c cs)
  show ?case
  proof (cases "sep \<noteq> [] \<and> prefix sep (c # cs)")
    case True
    with 2 have "p = [] \<or> sublist p (drop (length sep) (c # cs))" by auto
    then show ?thesis
    proof
      assume "p = []" then show ?thesis by simp
    next
      assume "sublist p (drop (length sep) (c # cs))"
      moreover have "sublist (drop (length sep) (c # cs)) (c # cs)"
        by (rule suffix_imp_sublist) (rule suffix_drop)
      ultimately show ?thesis by (rule sublist_order.order.trans)
    qed
  next
    case False
    obtain q qs where q: "split_str sep cs = q # qs" by (cases "split_str sep cs") auto
    with False 2(3) have "p = c # q \<or> p \<in> set qs" by auto
    then show ?thesis
    proof
      assume p: "p = c # q"
      have "prefix q cs" using split_str_hd_prefix[of sep cs] q by simp
      then have "prefix (c # q) (c # cs)" by simp
      then show ?thesis unfolding p by (rule prefix_imp_sublist)
    next
      assume "p \<in> set qs"
      with q 2(2)[OF False, of p] have "sublist p cs" by simp
      then show ?thesis by (simp add: sublist_Cons_right)
    qed
  qed
qed

lemma split_str_no_sep: "sep \<noteq> [] \<Longrightarrow> p \<in> set (split_str sep t) \<Longrightarrow> \<not> sublist sep p"
proof (induction sep t arbitrary: p rule: split_str.induct)
  case (1 sep)
  then show ?case by simp
next
  case (2 sep c cs)
  show ?case
  proof (cases "sep \<noteq> [] \<and> prefix sep (c # cs)")
    case True
    with 2 show ?thesis by auto
  next
    case False
    obtain q qs where q: "split_str sep cs = q # qs" by (cases "split_str sep cs") auto
    with False 2(4) have "p = c # q \<or> p \<in> set qs" by auto
    then show ?thesis
    proof
      assume p: "p = c # q"
      have pq: "prefix q cs" using split_str_hd_prefix[of sep cs] q by simp
      have nq: "\<not> sublist sep q" using 2(2)[OF False 2(3), of q] q by simp
      have "\<not> prefix sep (c # q)"
      proof
        assume "prefix sep (c # q)"
        moreover have "prefix (c # q) (c # cs)" using pq by simp
        ultimately have "prefix sep (c # cs)" by (rule prefix_order.trans)
        with False 2(3) show False by simp
      qed
      with nq show ?thesis unfolding p by (simp add: sublist_Cons_right)
    next
      assume "p \<in> set qs"
      with q 2(2)[OF False 2(3), of p] show ?thesis by simp
    qed
  qed
qed

definition clean :: "string list \<Rightarrow> string \<Rightarrow> bool" where
  "clean pre t = (\<forall>s\<in>set pre. s \<noteq> [] \<and> \<not> contains s t)"

lemma choose_separator_clean:
  "clean pre t \<Longrightarrow> choose_separator (pre @ rest) t d = choose_separator rest t d"
  by (induction pre) (auto simp: clean_def)

lemma split_pieces_total:
  "(\<And>s. s \<in> set ss \<Longrightarrow> chunk_size sp \<le> int (length s) \<Longrightarrow> \<exists>out. recurse s = Inr out) \<Longrightarrow>
   \<exists>chunks. split_pieces recurse sp sep ss good final = Inr chunks"
proof (induction ss arbitrary: good final)
  case Nil
  show ?case by simp
next
  case (Cons s ss)
  have ih: "\<And>good final. \<exists>chunks. split_pieces recurse sp sep ss good final = Inr chunks"
    by (rule Cons.IH) (rule Cons.prems, simp_all)
  show ?case
  proof (cases "int (length s) < chunk_size sp")
    case True
    then show ?thesis using ih by simp
  next
    case False
    then obtain out where "recurse s = Inr out" using Cons.prems[of s] by auto
    with False show ?thesis using ih by (simp add: Let_def)
  qed
qed

lemma split_text_total_aux:
  "separators sp = pre @ rest \<Longrightarrow> clean pre t \<Longrightarrow> [] \<in> set rest \<Longrightarrow> length rest \<le> fuel \<Longrightarrow>
   2 \<le> chunk_size sp \<Longrightarrow> \<exists>chunks. split_text fuel sp t = Inr chunks"
proof (induction rest arbitrary: pre fuel t)
  case Nil
  then show ?case by simp
next
  case (Cons s rest)
  from Cons.prems(4) obtain f where fuel: "fuel = Suc f" and f: "length rest \<le> f"
    by (cases fuel) auto
  have ne: "separators sp \<noteq> []" using Cons.prems(1) by simp
  have cs: "choose_separator (separators sp) t (last (separators sp)) =
            choose_separator (s # rest) t (last (separators sp))"
    unfolding Cons.prems(1) by (rule choose_separator_clean[OF Cons.prems(2)])
  show ?case
  proof (cases "s = []")
    case True
    have "\<exists>chunks. split_pieces (split_text f sp) sp [] (map (\<lambda>c. [c]) t) [] [] = Inr chunks"
      by (rule split_pieces_total) (use Cons.prems(5) in auto)
    with True cs ne show ?thesis by (simp add: fuel)
  next
    case False
    show ?thesis
    proof (cases "contains s t")
      case True
      have "\<exists>chunks. split_pieces (split_text f sp) sp s (split_str s t) [] [] = Inr chunks"
      proof (rule split_pieces_total)
        fix p assume p: "p \<in> set (split_str s t)"
        have "clean (pre @ [s]) p"
          unfolding clean_def
        proof
          fix x assume "x \<in> set (pre @ [s])"
          then consider "x \<in> set pre" | "x = s" by auto
          then show "x \<noteq> [] \<and> \<not> contains x p"
          proof cases
            case 1
            with Cons.prems(2) have "x \<noteq> []" "\<not> sublist x t" by (auto simp: clean_def contains_sublist)
            moreover have "sublist p t" using p by (rule split_str_sublist)
            ultimately show ?thesis by (auto simp: contains_sublist dest: sublist_order.order.trans)
          next
            case 2
            with False split_str_no_sep[OF False p] show ?thesis by (simp add: contains_sublist)
          qed
        qed
        moreover have "separators sp = (pre @ [s]) @ rest" using Cons.prems(1) by simp
        moreover have "[] \<in> set rest" using Cons.prems(3) False by auto
        ultimately show "\<exists>out. split_text f sp p = Inr out"
          using f Cons.prems(5) by (intro Cons.IH)
      qed
      with True False cs ne show ?thesis by (simp add: fuel)
    next
      case nc: False
      have "clean (pre @ [s]) t" using Cons.prems(2) False nc by (auto simp: clean_def)
      moreover have "separators sp = (pre @ [s]) @ rest" using Cons.prems(1) by simp
      moreover have "[] \<in> set rest" using Cons.prems(3) False by auto
      moreover have "length rest \<le> fuel" using Cons.prems(4) by simp
      ultimately show ?thesis using Cons.prems(5) by (intro Cons.IH)
    qed
  qed
qed

lemma split_text_total:
  "[] \<in> set (separators sp) \<Longrightarrow> length (separators sp) \<le> fuel \<Longrightarrow> 2 \<le> chunk_size sp \<Longrightarrow>
   \<exists>chunks. split_text fuel sp t = Inr chunks"
  by (rule split_text_total_aux[where pre = "[]"]) (simp_all add: clean_def)

section \<open>The size-bounded trimmer (src/ai/providers.py)\<close>

definition MIN_CHUNK_SIZE :: int where
  "MIN_CHUNK_SIZE = 140"

text \<open>The interpreter's recursion budget (\<^verbatim>\<open>sys.getrecursionlimit()\<close>, 1000 by default).\<close>

definition recursion_limit :: nat where
  "recursion_limit = 1000"

text \<open>
  \<^verbatim>\<open>trim_prompt(prompt, context_size)\<close>, with \<open>context_size\<close> already read from the
  environment when the caller gave none. \<open>encode\<close> stands for
  \<^verbatim>\<open>len(tiktoken.get_encoding("o200k_base").encode(prompt))\<close>: the token count, or the
  exception the library raises. Everything below the \<^verbatim>\<open>try\<close> that raises ends in the
  handler of the same call, which cuts the prompt of that call to \<open>context_size * 3\<close>
  characters.

  The two recursive calls stand inside the \<^verbatim>\<open>try\<close> as well. The first argument is the
  number of nested calls the interpreter still allows: the segmenter is given what is
  left, a recursive call of the trimmer uses one up, and when none is left the call
  raises \<^verbatim>\<open>RecursionError\<close>, which the handler of the calling frame catches as it catches
  everything else.

  The second component of the result records whether the value was produced by a
  handler (of this call or of a nested one); the code returns the first component.
\<close>

fun trim_prompt_traced ::
  "nat \<Rightarrow> (string \<Rightarrow> error + nat) \<Rightarrow> string \<Rightarrow> int \<Rightarrow> string \<times> bool" where
  "trim_prompt_traced fuel encode prompt context_size =
     (if prompt = [] then ([], False)
      else
        (case encode prompt of
           Inl e \<Rightarrow> (py_prefix (context_size * 3) prompt, True)
         | Inr n \<Rightarrow>
             if int n \<le> context_size then (prompt, False)
             else
               (let overflow_tokens = int n - context_size;
                    csz = int (length prompt) - overflow_tokens * 3
                in if csz < MIN_CHUNK_SIZE then (py_prefix MIN_CHUNK_SIZE prompt, False)
                   else
                     (case RecursiveCharacterTextSplitter_init csz 0 None of
                        Inl e \<Rightarrow> (py_prefix (context_size * 3) prompt, True)
                      | Inr splitter \<Rightarrow>
                          (case split_text fuel splitter prompt of
                             Inl e \<Rightarrow> (py_prefix (context_size * 3) prompt, True)
                           | Inr chunks \<Rightarrow>
                               (let trimmed_prompt = (case chunks of [] \<Rightarrow> [] | c # _ \<Rightarrow> c)
                                in case fuel of
                                     0 \<Rightarrow> (py_prefix (context_size * 3) prompt, True)
                                   | Suc fuel' \<Rightarrow>
                                       if length trimmed_prompt = length prompt
                                       then trim_prompt_traced fuel' encode
                                              (py_prefix csz prompt) context_size
                                       else trim_prompt_traced fuel' encode
                                              trimmed_prompt context_size))))))"

declare trim_prompt_traced.simps [simp del]

definition trim_prompt :: "nat \<Rightarrow> (string \<Rightarrow> error + nat) \<Rightarrow> string \<Rightarrow> int \<Rightarrow> string" where
  "trim_prompt fuel encode prompt context_size =
     fst (trim_prompt_traced fuel encode prompt context_size)"

definition reaches_handler :: "nat \<Rightarrow> (string \<Rightarrow> error + nat) \<Rightarrow> string \<Rightarrow> int \<Rightarrow> bool" where
  "reaches_handler fuel encode prompt context_size =
     snd (trim_prompt_traced fuel encode prompt context_size)"

text \<open>Three token counters for the examples: one that never raises; one that raises on
  a text holding the special token \<^verbatim>\<open><|endoftext|>\<close>, as \<^verbatim>\<open>encode\<close> does, and counts a token
  for every two characters otherwise; and one that raises on a text that ends with the
  opening \<^verbatim>\<open><|\<close> of a special token.\<close>

definition four_chars_per_token :: "string \<Rightarrow> error + nat" where
  "four_chars_per_token s = Inr (length s div 4)"

definition special_token_encoder :: "string \<Rightarrow> error + nat" where
  "special_token_encoder s =
     (if contains ''<|endoftext|>'' s then Inl ValueError else Inr ((length s + 1) div 2))"

definition open_marker_encoder :: "string \<Rightarrow> error + nat" where
  "open_marker_encoder s =
     (if drop (length s - 2) s = ''<|'' then Inl ValueError else Inr ((length s + 1) div 2))"

section \<open>Trimming twice\<close>

text \<open>A string the trimmer leaves alone when it can be counted: empty, within the budget,
  or at most \<open>MIN_CHUNK_SIZE\<close> characters long.\<close>

definition settled :: "(string \<Rightarrow> error + nat) \<Rightarrow> int \<Rightarrow> string \<Rightarrow> bool" where
  "settled encode context_size r =
     (r = [] \<or> (\<exists>n. encode r = Inr n \<and> int n \<le> context_size) \<or> int (length r) \<le> MIN_CHUNK_SIZE)"

lemma trim_prompt_settled_fixed:
  assumes "settled encode B r" and "\<exists>n. encode r = Inr n"
  shows "trim_prompt_traced fuel encode r B = (r, False)"
proof -
  from assms(2) obtain n where n: "encode r = Inr n" by blast
  show ?thesis
  proof (cases "r = [] \<or> int n \<le> B")
    case True
    then show ?thesis using n by (auto simp: trim_prompt_traced.simps)
  next
    case False
    with assms(1) n have len: "int (length r) \<le> MIN_CHUNK_SIZE" by (auto simp: settled_def)
    with False have "int (length r) - (int n - B) * 3 < MIN_CHUNK_SIZE" by simp
    with False n len show ?thesis
      by (simp add: trim_prompt_traced.simps[of fuel encode r B] Let_def py_prefix_def
          MIN_CHUNK_SIZE_def)
  qed
qed

text \<open>A result that no handler produced is settled.\<close>

lemma trim_prompt_settled:
  "\<not> snd (trim_prompt_traced fuel encode p B) \<Longrightarrow>
   settled encode B (fst (trim_prompt_traced fuel encode p B))"
proof (induction fuel encode p B rule: trim_prompt_traced.induct)
  case (1 fuel encode p B)
  show ?case
  proof (cases "p = []")
    case True
    then show ?thesis by (simp add: trim_prompt_traced.simps settled_def)
  next
    case ne: False
    show ?thesis
    proof (cases "encode p")
      case (Inl e)
      with ne "1.prems" show ?thesis by (simp add: trim_prompt_traced.simps[of fuel encode p B])
    next
      case (Inr n)
      let ?csz = "int (length p) - (int n - B) * 3"
      show ?thesis
      proof (cases "int n \<le> B")
        case True
        with ne Inr show ?thesis
          by (auto simp: trim_prompt_traced.simps[of fuel encode p B] settled_def)
      next
        case gt: False
        show ?thesis
        proof (cases "?csz < MIN_CHUNK_SIZE")
          case True
          with ne Inr gt have "trim_prompt_traced fuel encode p B = (py_prefix MIN_CHUNK_SIZE p, False)"
            by (simp add: trim_prompt_traced.simps[of fuel encode p B] Let_def)
          then show ?thesis by (simp add: settled_def py_prefix_def MIN_CHUNK_SIZE_def)
        next
          case big: False
          show ?thesis
          proof (cases "RecursiveCharacterTextSplitter_init ?csz 0 None")
            case (Inl e)
            with ne Inr gt big "1.prems" show ?thesis
              by (simp add: trim_prompt_traced.simps[of fuel encode p B] Let_def)
          next
            case init: (Inr splitter)
            show ?thesis
            proof (cases "split_text fuel splitter p")
              case (Inl e)
              with ne Inr gt big init "1.prems" show ?thesis
                by (simp add: trim_prompt_traced.simps[of fuel encode p B] Let_def)
            next
              case st: (Inr chunks)
              let ?tr = "case chunks of [] \<Rightarrow> [] | c # _ \<Rightarrow> c"
              show ?thesis
              proof (cases fuel)
                case 0
                with ne Inr gt big init st "1.prems" show ?thesis
                  by (simp add: trim_prompt_traced.simps[of fuel encode p B] Let_def)
              next
                case (Suc f)
                show ?thesis
                proof (cases "length ?tr = length p")
                  case True
                  with ne Inr gt big init st Suc
                  have eq: "trim_prompt_traced fuel encode p B =
                        trim_prompt_traced f encode (py_prefix ?csz p) B"
                    by (simp add: trim_prompt_traced.simps[of "Suc f" encode p B] Let_def
                        del: split_text.simps)
                  have "settled encode B (fst (trim_prompt_traced f encode (py_prefix ?csz p) B))"
                    by (rule "1.IH"(1)[OF ne Inr gt refl refl big init st refl Suc True])
                       (use "1.prems" eq in simp)
                  then show ?thesis by (simp add: eq)
                next
                  case False
                  with ne Inr gt big init st Suc
                  have eq: "trim_prompt_traced fuel encode p B = trim_prompt_traced f encode ?tr B"
                    by (simp add: trim_prompt_traced.simps[of "Suc f" encode p B] Let_def
                        del: split_text.simps)
                  have "settled encode B (fst (trim_prompt_traced f encode ?tr B))"
                    by (rule "1.IH"(2)[OF ne Inr gt refl refl big init st refl Suc False])
                       (use "1.prems" eq in simp)
                  then show ?thesis by (simp add: eq)
                qed
              qed
            qed
          qed
        qed
      qed
    qed
  qed
qed

text \<open>
  The handler is not reached when the counter raises on no text and the recursion budget
  exceeds the length of the prompt by the number of separators: the segmenter returns
  (the empty separator is in its list), and every nested call is on a shorter prompt.
\<close>

lemma init_for_trim:
  "\<not> csz < MIN_CHUNK_SIZE \<Longrightarrow>
   RecursiveCharacterTextSplitter_init csz 0 None =
     Inr \<lparr>chunk_size = csz, chunk_overlap = 0, separators = default_separators\<rparr>"
  by (simp add: RecursiveCharacterTextSplitter_init_def TextSplitter_init_def MIN_CHUNK_SIZE_def)

lemma split_text_for_trim:
  "\<not> csz < MIN_CHUNK_SIZE \<Longrightarrow> 8 \<le> fuel \<Longrightarrow>
   \<exists>chunks. split_text fuel
      \<lparr>chunk_size = csz, chunk_overlap = 0, separators = default_separators\<rparr> p = Inr chunks"
  by (rule split_text_total) (simp_all add: default_separators_def MIN_CHUNK_SIZE_def)

lemma trim_prompt_handler_not_reached:
  assumes "\<forall>s. \<exists>n. encode s = Inr n"
  shows "length p + 8 \<le> fuel \<Longrightarrow> \<not> reaches_handler fuel encode p B"
proof (induction fuel arbitrary: p)
  case 0
  then show ?case by simp
next
  case (Suc f)
  from assms obtain n where n: "encode p = Inr n" by blast
  let ?csz = "int (length p) - (int n - B) * 3"
  let ?sp = "\<lparr>chunk_size = ?csz, chunk_overlap = 0, separators = default_separators\<rparr>"
  show ?case
  proof (cases "p = [] \<or> int n \<le> B \<or> ?csz < MIN_CHUNK_SIZE")
    case True
    with n show ?thesis
      by (auto simp: reaches_handler_def trim_prompt_traced.simps[of "Suc f" encode p B] Let_def)
  next
    case False
    then have ne: "p \<noteq> []" and gt: "\<not> int n \<le> B" and big: "\<not> ?csz < MIN_CHUNK_SIZE"
      by auto
    note init = init_for_trim[OF big]
    from Suc.prems have "8 \<le> Suc f" by simp
    from split_text_for_trim[OF big this] obtain chunks
      where st: "split_text (Suc f) ?sp p = Inr chunks" by blast
    let ?tr = "case chunks of [] \<Rightarrow> [] | c # _ \<Rightarrow> c"
    have trlen: "length ?tr \<le> length p"
    proof (cases chunks)
      case Nil
      then show ?thesis by simp
    next
      case (Cons c cs)
      then have "c \<in> set chunks" by simp
      with st have "length c \<le> length p" by (rule split_text_len)
      with Cons show ?thesis by simp
    qed
    show ?thesis
    proof (cases "length ?tr = length p")
      case True
      with ne n gt big init st
      have eq: "trim_prompt_traced (Suc f) encode p B =
                  trim_prompt_traced f encode (py_prefix ?csz p) B"
        by (simp add: trim_prompt_traced.simps[of "Suc f" encode p B] Let_def
            del: split_text.simps)
      from gt big have "length (py_prefix ?csz p) < length p"
        by (simp add: py_prefix_def MIN_CHUNK_SIZE_def)
      with Suc.prems have "length (py_prefix ?csz p) + 8 \<le> f" by simp
      from Suc.IH[OF this] show ?thesis by (simp add: reaches_handler_def eq)
    next
      case False
      with ne n gt big init st
      have eq: "trim_prompt_traced (Suc f) encode p B = trim_prompt_traced f encode ?tr B"
        by (simp add: trim_prompt_traced.simps[of "Suc f" encode p B] Let_def
            del: split_text.simps)
      from False trlen have "length ?tr < length p" by simp
      with Suc.prems have "length ?tr + 8 \<le> f" by simp
      from Suc.IH[OF this] show ?thesis by (simp add: reaches_handler_def eq)
    qed
  qed
qed

text \<open>
  C5, as the code has it. Let the first trimming of a prompt not end in the handler
  (counting raised on none of the texts it met, and the recursion budget sufficed), and
  let counting not raise on the trimmed prompt. Then trimming the trimmed prompt again
  returns it unchanged, for every budget and every recursion budget. The empty prompt is
  trimmed to the empty string under any token counter.
\<close>

theorem trim_prompt_idempotent:
  assumes "\<not> reaches_handler fuel encode p B"
    and "\<exists>n. encode (trim_prompt fuel encode p B) = Inr n"
  shows "trim_prompt fuel encode (trim_prompt fuel encode p B) B = trim_prompt fuel encode p B \<and>
         trim_prompt fuel encode [] B = []"
proof -
  have "settled encode B (trim_prompt fuel encode p B)"
    using assms(1) trim_prompt_settled[of fuel encode p B]
    by (simp add: reaches_handler_def trim_prompt_def)
  from trim_prompt_settled_fixed[OF this assms(2), of fuel]
  have "trim_prompt fuel encode (trim_prompt fuel encode p B) B = trim_prompt fuel encode p B"
    by (simp add: trim_prompt_def)
  moreover have "trim_prompt fuel encode [] B = []"
    by (simp add: trim_prompt_def trim_prompt_traced.simps)
  ultimately show ?thesis by simp
qed

theorem trim_prompt_idempotent_witness:
  "\<not> reaches_handler recursion_limit four_chars_per_token (concat (replicate 40 ''word '')) 45 \<and>
   (\<exists>n. four_chars_per_token
          (trim_prompt recursion_limit four_chars_per_token (concat (replicate 40 ''word '')) 45)
        = Inr n) \<and>
   length (trim_prompt recursion_limit four_chars_per_token (concat (replicate 40 ''word '')) 45)
     = 181 \<and>
   trim_prompt recursion_limit four_chars_per_token
     (trim_prompt recursion_limit four_chars_per_token (concat (replicate 40 ''word '')) 45) 45 =
   trim_prompt recursion_limit four_chars_per_token (concat (replicate 40 ''word '')) 45 \<and>
   trim_prompt recursion_limit four_chars_per_token [] 45 = []"
proof -
  have h: "\<not> reaches_handler recursion_limit four_chars_per_token (concat (replicate 40 ''word '')) 45"
    by code_simp
  have c: "\<exists>n. four_chars_per_token
          (trim_prompt recursion_limit four_chars_per_token (concat (replicate 40 ''word '')) 45)
        = Inr n"
    by (simp add: four_chars_per_token_def)
  have l: "length (trim_prompt recursion_limit four_chars_per_token
                     (concat (replicate 40 ''word '')) 45) = 181"
    by code_simp
  show ?thesis
    using h c l trim_prompt_idempotent [OF h c] by simp
qed

text \<open>
  C5 as stated fails where the handler's cut is taken. The prompt is 141 characters of
  digits and blanks and then the special token, the budget 47 tokens: the counter
  raises, the handler keeps the first \<open>47 * 3 = 141\<close> characters, and these no longer
  hold the special token. Trimmed again they count as 71 tokens, the estimate
  \<open>141 - 24 * 3\<close> falls below \<open>MIN_CHUNK_SIZE\<close>, and 140 characters are left.
\<close>

theorem trim_prompt_not_idempotent_after_fallback:
  "reaches_handler recursion_limit special_token_encoder
     (concat (replicate 70 ''7 '') @ ''7<|endoftext|>'') 47 \<and>
   length (trim_prompt recursion_limit special_token_encoder
     (concat (replicate 70 ''7 '') @ ''7<|endoftext|>'') 47) = 141 \<and>
   length (trim_prompt recursion_limit special_token_encoder
     (trim_prompt recursion_limit special_token_encoder
        (concat (replicate 70 ''7 '') @ ''7<|endoftext|>'') 47) 47) = 140 \<and>
   trim_prompt recursion_limit special_token_encoder
     (trim_prompt recursion_limit special_token_encoder
        (concat (replicate 70 ''7 '') @ ''7<|endoftext|>'') 47) 47
   \<noteq> trim_prompt recursion_limit special_token_encoder
        (concat (replicate 70 ''7 '') @ ''7<|endoftext|>'') 47"
proof -
  let ?once = "trim_prompt recursion_limit special_token_encoder
                 (concat (replicate 70 ''7 '') @ ''7<|endoftext|>'') 47"
  have 1: "length ?once = 141"
    by code_simp
  have 2: "length (trim_prompt recursion_limit special_token_encoder ?once 47) = 140"
    by code_simp
  from 1 2 have "length (trim_prompt recursion_limit special_token_encoder ?once 47) \<noteq> length ?once"
    by simp
  then have 3: "trim_prompt recursion_limit special_token_encoder ?once 47 \<noteq> ?once" by metis
  have 4: "reaches_handler recursion_limit special_token_encoder
     (concat (replicate 70 ''7 '') @ ''7<|endoftext|>'') 47"
    by code_simp
  from 1 2 3 4 show ?thesis by simp
qed

text \<open>
  The second assumption is needed as well. Under a counter that raises on a text ending
  with \<^verbatim>\<open><|\<close>, a prompt of 200 characters with \<^verbatim>\<open><|\<close> at positions 139 and 140 is counted
  (100 tokens); with a budget of 40 the estimate \<open>200 - 60 * 3\<close> is below
  \<open>MIN_CHUNK_SIZE\<close>, so the first 140 characters are returned and no handler is
  reached. On these the counter raises, and the second trimming cuts them to
  \<open>40 * 3 = 120\<close> characters.
\<close>

lemma trim_prompt_uncountable_result:
  "\<not> reaches_handler recursion_limit open_marker_encoder
       (concat (replicate 69 ''7 '') @ ''<|'' @ replicate 60 (CHR ''7'')) 40 \<and>
   open_marker_encoder (trim_prompt recursion_limit open_marker_encoder
       (concat (replicate 69 ''7 '') @ ''<|'' @ replicate 60 (CHR ''7'')) 40) = Inl ValueError \<and>
   length (trim_prompt recursion_limit open_marker_encoder
       (concat (replicate 69 ''7 '') @ ''<|'' @ replicate 60 (CHR ''7'')) 40) = 140 \<and>
   length (trim_prompt recursion_limit open_marker_encoder
     (trim_prompt recursion_limit open_marker_encoder
       (concat (replicate 69 ''7 '') @ ''<|'' @ replicate 60 (CHR ''7'')) 40) 40) = 120"
proof -
  let ?p = "concat (replicate 69 ''7 '') @ ''<|'' @ replicate 60 (CHR ''7'')"
  have 1: "\<not> reaches_handler recursion_limit open_marker_encoder ?p 40"
    by code_simp
  have 2: "open_marker_encoder (trim_prompt recursion_limit open_marker_encoder ?p 40)
             = Inl ValueError"
    by code_simp
  have 3: "length (trim_prompt recursion_limit open_marker_encoder ?p 40) = 140"
    by code_simp
  have 4: "length (trim_prompt recursion_limit open_marker_encoder
             (trim_prompt recursion_limit open_marker_encoder ?p 40) 40) = 120"
    by code_simp
  from 1 2 3 4 show ?thesis by simp
qed

section \<open>The research orchestrator (src/deep_research.py)\<close>

subsection \<open>Data and external services\<close>

text \<open>
  The fields of a \<^verbatim>\<open>SerpQuery\<close> hold what the planner's answer had under the two keys: a
  string, or Python's \<^verbatim>\<open>None\<close> when the answer had a null there.
\<close>

record SerpQuery =
  query :: "string option"
  research_goal :: "string option"

record ResearchResult =
  learnings :: "string list"
  visited_urls :: "string list"

text \<open>
  A key of a JSON object that a service sends back: the key is missing, it is present
  with a null, or it is present with a value. \<^verbatim>\<open>d[k]\<close> raises on a missing key and gives
  \<^verbatim>\<open>None\<close> on a null; \<^verbatim>\<open>d.get(k, default)\<close> gives the default on a missing key only, and
  \<^verbatim>\<open>None\<close> on a null.
\<close>

datatype 'a field = Missing | Null | Present 'a

definition subscript :: "'a field \<Rightarrow> error + 'a option" where
  "subscript f = (case f of Missing \<Rightarrow> Inl KeyError | Null \<Rightarrow> Inr None | Present v \<Rightarrow> Inr (Some v))"

definition get_default :: "'a field \<Rightarrow> 'a \<Rightarrow> 'a option" where
  "get_default f d = (case f of Missing \<Rightarrow> Some d | Null \<Rightarrow> None | Present v \<Rightarrow> Some v)"

text \<open>
  What the services send back, as the code reads it. The values that are present are of
  the type the schema asks for: strings, lists of strings, lists of objects.

  The three keys of a search item, and the \<^verbatim>\<open>"results"\<close> key of a search result, are
  options: the code reads them with \<^verbatim>\<open>item.get(k)\<close>, or tests them with
  \<^verbatim>\<open>k in d and d[k]\<close>, and at each of these places a missing key and a null both count as
  false, so \<open>None\<close> stands for both.
\<close>

record query_item =
  item_query :: "string field"
  item_research_goal :: "string field"

record search_item =
  url :: "string option"
  content :: "string option"
  markdown :: "string option"

record extract_response =
  resp_learnings :: "string list field"
  resp_follow_up_questions :: "string list field"

text \<open>The dict \<^verbatim>\<open>process_serp_result\<close> returns. Its \<^verbatim>\<open>"follow_up_questions"\<close> can be
  \<^verbatim>\<open>None\<close>.\<close>

record extraction =
  ex_learnings :: "string list"
  ex_follow_up_questions :: "string list option"

text \<open>
  The position of a call in the call tree of one research run: the branch numbers on
  the way from the root. The services answer every call on its own, so the same
  request can be answered differently at two places, and a run with any timing of the
  services is the run of the model for some \<open>services\<close>.
\<close>

type_synonym invocation = "nat list"

text \<open>
  \<^item> \<open>plan_completion\<close>: \<^verbatim>\<open>parse_response(generate_object(...))\<close> in
    \<^verbatim>\<open>generate_serp_queries\<close>, given what the prompt is built from (query, number of
    queries, learnings); the result is the \<^verbatim>\<open>"queries"\<close> key of the answer.
  \<^item> \<open>tavily_search\<close>: \<^verbatim>\<open>tavily.search(query=..., max_results=5)\<close>; the result is the
    \<^verbatim>\<open>"results"\<close> key of the answer.
  \<^item> \<open>extract_completion\<close>: \<^verbatim>\<open>parse_response(generate_object(...))\<close> in
    \<^verbatim>\<open>process_serp_result\<close>, given the query, the trimmed contents and the two maxima
    written into the prompt and the schema.
  \<^item> \<open>encode\<close>: the token counter of \<^verbatim>\<open>trim_prompt\<close>.
  \<^item> \<open>set_order\<close>: Python leaves the order in which a \<^verbatim>\<open>set\<close> is listed open; the
    elements come out sorted by this key, which may depend on what was inserted.
\<close>

record services =
  plan_completion ::
    "invocation \<Rightarrow> string \<Rightarrow> int \<Rightarrow> string list \<Rightarrow> error + query_item list field"
  tavily_search :: "invocation \<Rightarrow> string option \<Rightarrow> int \<Rightarrow> error + search_item list option"
  extract_completion ::
    "invocation \<Rightarrow> string option \<Rightarrow> string list \<Rightarrow> int \<Rightarrow> int \<Rightarrow> error + extract_response"
  encode :: "string \<Rightarrow> error + nat"
  set_order :: "string list \<Rightarrow> string \<Rightarrow> nat"

text \<open>Python's truth value of a string that may be \<^verbatim>\<open>None\<close>.\<close>

definition truthy :: "string option \<Rightarrow> bool" where
  "truthy v = (case v of None \<Rightarrow> False | Some s \<Rightarrow> s \<noteq> [])"

text \<open>\<^verbatim>\<open>list(s)\<close> for the set \<open>s\<close> that received the elements of \<open>xs\<close>.\<close>

definition list_of_set :: "services \<Rightarrow> string list \<Rightarrow> string list" where
  "list_of_set sv xs = sort_key (set_order sv xs) (remdups xs)"

subsection \<open>The planner\<close>

text \<open>The comprehension \<^verbatim>\<open>[SerpQuery(query=q["query"], research_goal=q["research_goal"])
  for q in queries_data]\<close>: a missing key raises, a null is kept as \<^verbatim>\<open>None\<close>.\<close>

fun to_serp_queries :: "query_item list \<Rightarrow> error + SerpQuery list" where
  "to_serp_queries [] = Inr []"
| "to_serp_queries (q # qs) =
     (case subscript (item_query q) of
        Inl e \<Rightarrow> Inl e
      | Inr a \<Rightarrow>
          (case subscript (item_research_goal q) of
             Inl e \<Rightarrow> Inl e
           | Inr b \<Rightarrow>
               (case to_serp_queries qs of
                  Inl e \<Rightarrow> Inl e
                | Inr r \<Rightarrow> Inr (\<lparr>query = a, research_goal = b\<rparr> # r))))"

text \<open>\<^verbatim>\<open>generate_serp_queries\<close>: the first \<open>num_queries\<close> queries of the answer, and the
  empty list on any exception. \<^verbatim>\<open>result.get("queries", [])\<close> is \<^verbatim>\<open>None\<close> when the key holds
  a null, and the comprehension over \<^verbatim>\<open>None\<close> raises.\<close>

definition generate_serp_queries ::
  "services \<Rightarrow> invocation \<Rightarrow> string \<Rightarrow> int \<Rightarrow> string list \<Rightarrow> SerpQuery list" where
  "generate_serp_queries sv cid q num_queries ls =
     (case plan_completion sv cid q num_queries ls of
        Inl e \<Rightarrow> []
      | Inr result \<Rightarrow>
          (case get_default result [] of
             None \<Rightarrow> []
           | Some queries_data \<Rightarrow>
               (case to_serp_queries queries_data of
                  Inl e \<Rightarrow> []
                | Inr queries \<Rightarrow> py_prefix num_queries queries)))"

subsection \<open>The extractor\<close>

text \<open>What one item adds to \<open>contents\<close> in \<^verbatim>\<open>process_serp_result\<close>: its markdown when
  that is non-empty, else its content when that is non-empty, trimmed to 25000 tokens.\<close>

definition item_contents :: "services \<Rightarrow> search_item \<Rightarrow> string list" where
  "item_contents sv item =
     (if truthy (markdown item)
      then (case markdown item of None \<Rightarrow> []
            | Some m \<Rightarrow> [trim_prompt recursion_limit (encode sv) m 25000])
      else if truthy (content item)
      then (case content item of None \<Rightarrow> []
            | Some c \<Rightarrow> [trim_prompt recursion_limit (encode sv) c 25000])
      else [])"

text \<open>
  \<^verbatim>\<open>process_serp_result\<close>. \<open>result\<close> is the \<^verbatim>\<open>"results"\<close> key of the dict it is given:
  \<open>None\<close> when the dict has no such key, and the list under it otherwise (its caller
  always passes a list). With no contents it returns two empty lists without calling
  the completion service; an exception inside its \<^verbatim>\<open>try\<close> gives two empty lists as well.
  There, \<^verbatim>\<open>result.get("learnings", [])\<close> and \<^verbatim>\<open>result.get("follow_up_questions", [])\<close>
  are read, then \<^verbatim>\<open>len(learnings)\<close> is logged, which raises when \<open>learnings\<close> is \<^verbatim>\<open>None\<close>;
  otherwise the two values are returned as they are, the second possibly \<^verbatim>\<open>None\<close>.
\<close>

definition process_serp_result ::
  "services \<Rightarrow> invocation \<Rightarrow> string option \<Rightarrow> search_item list option \<Rightarrow> int \<Rightarrow> int \<Rightarrow> extraction" where
  "process_serp_result sv cid q result num_learnings num_follow_up_questions =
     (let contents = (case result of None \<Rightarrow> []
                      | Some items \<Rightarrow> concat (map (item_contents sv) items))
      in if contents = [] then \<lparr>ex_learnings = [], ex_follow_up_questions = Some []\<rparr>
         else
           (case extract_completion sv cid q contents num_learnings num_follow_up_questions of
              Inl e \<Rightarrow> \<lparr>ex_learnings = [], ex_follow_up_questions = Some []\<rparr>
            | Inr r \<Rightarrow>
                (let learnings = get_default (resp_learnings r) [];
                     follow_up_questions = get_default (resp_follow_up_questions r) []
                 in case learnings of
                      None \<Rightarrow> \<lparr>ex_learnings = [], ex_follow_up_questions = Some []\<rparr>
                    | Some l \<Rightarrow>
                        \<lparr>ex_learnings = l, ex_follow_up_questions = follow_up_questions\<rparr>)))"

subsection \<open>One branch and the recursion\<close>

text \<open>
  The loop over the search results in \<^verbatim>\<open>process_query\<close>: an item with a non-empty url
  adds the url to \<open>new_urls\<close> and the dict \<^verbatim>\<open>{"url": url, "markdown": content}\<close> to
  \<open>scraped_contents\<close>, where \<open>content\<close> is
  \<^verbatim>\<open>item.get("content") or item.get("markdown", "")\<close>. (Where the item has a null
  markdown, the code stores \<^verbatim>\<open>None\<close> and not the empty string; the extractor, the only
  reader, takes both as false.)
\<close>

definition new_urls_of :: "search_item list \<Rightarrow> string list" where
  "new_urls_of items =
     concat (map (\<lambda>item. case url item of None \<Rightarrow> [] | Some u \<Rightarrow> if u = [] then [] else [u]) items)"

definition scraped_contents_of :: "search_item list \<Rightarrow> search_item list" where
  "scraped_contents_of items =
     concat (map (\<lambda>item.
        if truthy (url item)
        then [\<lparr>url = url item, content = None,
               markdown = (if truthy (content item) then content item
                           else (case markdown item of None \<Rightarrow> Some [] | Some m \<Rightarrow> Some m))\<rparr>]
        else []) items)"

text \<open>What an f-string makes of a value that is a string or \<^verbatim>\<open>None\<close>.\<close>

definition py_str :: "string option \<Rightarrow> string" where
  "py_str v = (case v of None \<Rightarrow> ''None'' | Some s \<Rightarrow> s)"

text \<open>The query of the recursive call: the f-string of \<^verbatim>\<open>process_query\<close>, stripped.
  \<^verbatim>\<open>chr(10).join(processed["follow_up_questions"])\<close> raises when the value is \<^verbatim>\<open>None\<close>.\<close>

definition next_query :: "SerpQuery \<Rightarrow> string list option \<Rightarrow> error + string" where
  "next_query serp_query follow_up_questions =
     (case follow_up_questions of
        None \<Rightarrow> Inl TypeError
      | Some questions \<Rightarrow>
          Inr (strip ([CHR 0x0A] @ ''Previous research goal: '' @
                      py_str (research_goal serp_query) @ [CHR 0x0A] @
                      ''Follow-up research directions: '' @
                      join [CHR 0x0A] questions @ [CHR 0x0A] @
                      replicate 20 (CHR 0x20))))"

text \<open>The end of \<^verbatim>\<open>deep_research\<close>: two sets start from the seeds, take the lists of
  every branch result in turn, and are listed.\<close>

definition merge_results ::
  "services \<Rightarrow> string list \<Rightarrow> string list \<Rightarrow> ResearchResult list \<Rightarrow> ResearchResult" where
  "merge_results sv ls us results =
     \<lparr>learnings = list_of_set sv (ls @ concat (map learnings results)),
      visited_urls = list_of_set sv (us @ concat (map visited_urls results))\<rparr>"

text \<open>The record of a run: for every call of \<^verbatim>\<open>deep_research\<close> the breadth and depth
  it was called with, and the calls its branches made.\<close>

datatype call = Call (call_breadth: int) (call_depth: int) (call_children: "call list")

text \<open>
  \<^verbatim>\<open>deep_research\<close> and its inner \<^verbatim>\<open>process_query\<close>, each returning its result
  together with the record of the calls made. \<open>ls\<close> and \<open>us\<close> are \<open>learnings\<close> and
  \<open>visited_urls\<close> after \<open>None\<close> was replaced by the empty list; \<open>on_progress\<close> is \<open>None\<close>, its
  default, and the progress dict, which is written and never read for the result, is
  left out. Branch \<open>i\<close> of the call at \<open>cid\<close>, and the call that branch makes, are at
  \<open>cid @ [i]\<close>. \<^verbatim>\<open>asyncio.gather\<close> returns the branch results in the order of the
  queries.

  \<open>process_query_try\<close> is the body of the \<^verbatim>\<open>try\<close> in \<^verbatim>\<open>process_query\<close>: its result, or
  the exception that leaves it. The search can raise, and so can the f-string of the
  next query, which is built before the recursive call when \<open>new_depth > 0\<close>; the
  extractor and the planner catch what the completion service raises, and
  \<^verbatim>\<open>deep_research\<close> itself raises nothing. \<open>process_query_traced\<close> is \<^verbatim>\<open>process_query\<close>: the
  handler turns every exception of the body into the empty result, so a branch always
  has a \<open>ResearchResult\<close>.
\<close>

function deep_research_traced ::
    "services \<Rightarrow> invocation \<Rightarrow> string \<Rightarrow> int \<Rightarrow> int \<Rightarrow> string list \<Rightarrow> string list
       \<Rightarrow> ResearchResult \<times> call"
  and process_query_traced ::
    "services \<Rightarrow> invocation \<Rightarrow> int \<Rightarrow> int \<Rightarrow> string list \<Rightarrow> string list \<Rightarrow> SerpQuery
       \<Rightarrow> ResearchResult \<times> call list"
  and process_query_try ::
    "services \<Rightarrow> invocation \<Rightarrow> int \<Rightarrow> int \<Rightarrow> string list \<Rightarrow> string list \<Rightarrow> SerpQuery
       \<Rightarrow> error + ResearchResult \<times> call list"
where
  "deep_research_traced sv cid q breadth depth ls us =
     (let serp_queries = generate_serp_queries sv cid q breadth ls
      in if serp_queries = [] then (\<lparr>learnings = ls, visited_urls = us\<rparr>, Call breadth depth [])
         else
           (let results = map (\<lambda>(i, serp_query).
                                 process_query_traced sv (cid @ [i]) breadth depth ls us serp_query)
                              (enumerate 0 serp_queries)
            in (merge_results sv ls us (map fst results),
                Call breadth depth (concat (map snd results)))))"
| "process_query_traced sv cid breadth depth ls us serp_query =
     (case process_query_try sv cid breadth depth ls us serp_query of
        Inl e \<Rightarrow> (\<lparr>learnings = [], visited_urls = []\<rparr>, [])
      | Inr r \<Rightarrow> r)"
| "process_query_try sv cid breadth depth ls us serp_query =
     (case tavily_search sv cid (query serp_query) 5 of
        Inl e \<Rightarrow> Inl e
      | Inr result \<Rightarrow>
          (let items = (case result of None \<Rightarrow> [] | Some items \<Rightarrow> items);
               new_urls = new_urls_of items;
               scraped_contents = scraped_contents_of items;
               new_breadth = max 1 (breadth div 2);
               new_depth = depth - 1;
               processed = process_serp_result sv cid (query serp_query)
                             (Some scraped_contents) 3 new_breadth;
               all_learnings = ls @ ex_learnings processed;
               all_urls = us @ new_urls
           in if new_depth > 0
              then (case next_query serp_query (ex_follow_up_questions processed) of
                      Inl e \<Rightarrow> Inl e
                    | Inr nq \<Rightarrow>
                        (case deep_research_traced sv cid nq new_breadth new_depth
                                all_learnings all_urls of
                           (r, c) \<Rightarrow> Inr (r, [c])))
              else Inr (\<lparr>learnings = all_learnings, visited_urls = all_urls\<rparr>, [])))"
  by pat_completeness auto
termination
  by (relation "measure (\<lambda>x. case x of
          Inl (sv, cid, q, breadth, depth, ls, us) \<Rightarrow> 3 * nat depth + 2
        | Inr (Inl (sv, cid, breadth, depth, ls, us, sq)) \<Rightarrow> 3 * nat depth + 1
        | Inr (Inr (sv, cid, breadth, depth, ls, us, sq)) \<Rightarrow> 3 * nat depth)") auto

declare deep_research_traced.simps [simp del] process_query_traced.simps [simp del]
  process_query_try.simps [simp del]

definition deep_research ::
  "services \<Rightarrow> invocation \<Rightarrow> string \<Rightarrow> int \<Rightarrow> int \<Rightarrow> string list \<Rightarrow> string list \<Rightarrow> ResearchResult" where
  "deep_research sv cid q breadth depth ls us =
     fst (deep_research_traced sv cid q breadth depth ls us)"

definition process_query ::
  "services \<Rightarrow> invocation \<Rightarrow> int \<Rightarrow> int \<Rightarrow> string list \<Rightarrow> string list \<Rightarrow> SerpQuery \<Rightarrow> ResearchResult" where
  "process_query sv cid breadth depth ls us serp_query =
     fst (process_query_traced sv cid breadth depth ls us serp_query)"

definition call_tree ::
  "services \<Rightarrow> invocation \<Rightarrow> string \<Rightarrow> int \<Rightarrow> int \<Rightarrow> string list \<Rightarrow> string list \<Rightarrow> call" where
  "call_tree sv cid q breadth depth ls us =
     snd (deep_research_traced sv cid q breadth depth ls us)"






text \<open>The calls the branches of a call make.\<close>

definition branch_calls ::
  "services \<Rightarrow> invocation \<Rightarrow> int \<Rightarrow> int \<Rightarrow> string list \<Rightarrow> string list \<Rightarrow> SerpQuery \<Rightarrow> call list" where
  "branch_calls sv cid breadth depth ls us serp_query =
     snd (process_query_traced sv cid breadth depth ls us serp_query)"

subsection \<open>Services for the examples\<close>

text \<open>
  In \<open>stub_services\<close> every plan holds two queries, every search finds one page with
  content and one without, every extraction gives one finding and no follow-up
  question. The others differ from it in one service:
  \<^item> \<open>failing_branch_services\<close>: the search of the second branch of the first call raises;
  \<^item> \<open>failing_search_services\<close>: every search raises;
  \<^item> \<open>failing_planner_services\<close>: the completion service raises on every plan;
  \<^item> \<open>generous_extract_services\<close>: the completion service answers an extraction with four
    findings and three follow-up questions;
  \<^item> \<open>failing_extraction_services\<close>: in the second branch of the first call the search
    finds a page of its own, and the completion service raises on the extraction;
  \<^item> \<open>null_follow_up_services\<close>: the completion service answers an extraction with a null
    under \<^verbatim>\<open>"follow_up_questions"\<close>.
\<close>

definition stub_services :: services where
  "stub_services =
     \<lparr>plan_completion = (\<lambda>cid q n ls. Inr (Present
         [\<lparr>item_query = Present ''capital of France'',
           item_research_goal = Present ''identify capital''\<rparr>,
          \<lparr>item_query = Present ''seat of the French government'',
           item_research_goal = Present ''cross-check''\<rparr>])),
      tavily_search = (\<lambda>cid q n. Inr (Some
         [\<lparr>url = Some ''https://example.org/paris'', content = Some ''Paris is the capital of France'',
           markdown = None\<rparr>,
          \<lparr>url = Some ''https://example.org/blank'', content = None, markdown = None\<rparr>])),
      extract_completion = (\<lambda>cid q contents nl nf. Inr
         \<lparr>resp_learnings = Present [''Paris is the capital of France''],
          resp_follow_up_questions = Present []\<rparr>),
      encode = four_chars_per_token,
      set_order = (\<lambda>xs x. length x)\<rparr>"

definition failing_branch_services :: services where
  "failing_branch_services =
     stub_services\<lparr>tavily_search :=
       (\<lambda>cid q n. if cid = [1] then Inl ServiceError else tavily_search stub_services cid q n)\<rparr>"


definition failing_planner_services :: services where
  "failing_planner_services =
     stub_services\<lparr>plan_completion := (\<lambda>cid q n ls. Inl ServiceError)\<rparr>"

definition generous_extract_services :: services where
  "generous_extract_services =
     stub_services\<lparr>extract_completion := (\<lambda>cid q contents nl nf. Inr
        \<lparr>resp_learnings = Present [''Paris is in France'', ''Paris is a capital'',
                                  ''France is a republic'', ''France is in Europe''],
         resp_follow_up_questions =
           Present [''Since when?'', ''Who decided?'', ''Which river?'']\<rparr>)\<rparr>"

definition failing_extraction_services :: services where
  "failing_extraction_services =
     stub_services\<lparr>
       tavily_search := (\<lambda>cid q n.
         if cid = [1]
         then Inr (Some [\<lparr>url = Some ''https://example.org/versailles'',
                          content = Some ''The government sits in Paris'', markdown = None\<rparr>])
         else tavily_search stub_services cid q n),
       extract_completion := (\<lambda>cid q contents nl nf.
         if cid = [1] then Inl ServiceError
         else extract_completion stub_services cid q contents nl nf)\<rparr>"


subsection \<open>The recursion equations of the results and of the record\<close>

lemma deep_research_eq:
  "deep_research sv cid q breadth depth ls us =
     (let serp_queries = generate_serp_queries sv cid q breadth ls
      in if serp_queries = [] then \<lparr>learnings = ls, visited_urls = us\<rparr>
         else merge_results sv ls us
                (map (\<lambda>(i, serp_query). process_query sv (cid @ [i]) breadth depth ls us serp_query)
                     (enumerate 0 serp_queries)))"
proof -
  have "fst \<circ> (\<lambda>(i, y). process_query_traced sv (cid @ [i]) breadth depth ls us y) =
        (\<lambda>(i, y). process_query sv (cid @ [i]) breadth depth ls us y)"
    by (auto simp: fun_eq_iff process_query_def)
  then show ?thesis
    by (simp add: deep_research_def deep_research_traced.simps[of sv cid q] Let_def)
qed

lemma process_query_eq:
  "process_query sv cid breadth depth ls us serp_query =
     (case process_query_try sv cid breadth depth ls us serp_query of
        Inl e \<Rightarrow> \<lparr>learnings = [], visited_urls = []\<rparr>
      | Inr r \<Rightarrow> fst r)"
  by (simp add: process_query_def process_query_traced.simps[of sv cid breadth] split: sum.splits)

lemma branch_calls_eq:
  "branch_calls sv cid breadth depth ls us serp_query =
     (case process_query_try sv cid breadth depth ls us serp_query of
        Inl e \<Rightarrow> []
      | Inr r \<Rightarrow> snd r)"
  by (simp add: branch_calls_def process_query_traced.simps[of sv cid breadth] split: sum.splits)

lemma process_query_try_search_raises:
  "tavily_search sv cid (query serp_query) 5 = Inl e \<Longrightarrow>
   process_query_try sv cid breadth depth ls us serp_query = Inl e"
  by (simp add: process_query_try.simps[of sv cid breadth])


lemma set_list_of_set [simp]: "set (list_of_set sv xs) = set xs"
  by (simp add: list_of_set_def)

lemma distinct_list_of_set [simp]: "distinct (list_of_set sv xs)"
  by (simp add: list_of_set_def)

lemma enumerate_branches:
  "map (\<lambda>(i, y). f i y) (enumerate 0 xs) = map (\<lambda>i. f i (xs ! i)) [0..<length xs]"
  by (rule nth_equalityI) (simp_all add: nth_enumerate_eq)


subsection \<open>Seeds and branch results in the merged result\<close>




subsection \<open>Levels of the call tree\<close>







lemma concat_singletons: "concat (map (\<lambda>x. [m]) xs) = replicate (length xs) m"
  by (induction xs) simp_all


subsection \<open>The example services\<close>

lemma stub_plan:
  "generate_serp_queries stub_services cid q n ls =
     py_prefix n [\<lparr>query = Some ''capital of France'', research_goal = Some ''identify capital''\<rparr>,
                  \<lparr>query = Some ''seat of the French government'',
                   research_goal = Some ''cross-check''\<rparr>]"
  by (simp add: generate_serp_queries_def stub_services_def get_default_def subscript_def)







section \<open>Termination and the shape of the call tree\<close>




section \<open>An empty plan\<close>

text \<open>
  C6. When the completion service raises while planning, the planner returns no query;
  and whenever the planner returns no query, \<^verbatim>\<open>deep_research\<close> returns the seed findings
  and sources it was given, unchanged. It has no error to raise: the result is a
  \<open>ResearchResult\<close> on every input.
\<close>

theorem empty_plan_returns_seed:
  "(plan_completion sv cid q breadth ls = Inl e \<longrightarrow> generate_serp_queries sv cid q breadth ls = []) \<and>
   (generate_serp_queries sv cid q breadth ls = [] \<longrightarrow>
      deep_research sv cid q breadth depth ls us = \<lparr>learnings = ls, visited_urls = us\<rparr>)"
  by (simp add: deep_research_eq generate_serp_queries_def)

theorem empty_plan_returns_seed_witness:
  "plan_completion failing_planner_services [] ''What is the capital of France?'' 3 [''known'']
     = Inl ServiceError \<and>
   generate_serp_queries failing_planner_services [] ''What is the capital of France?'' 3 [''known'']
     = [] \<and>
   deep_research failing_planner_services [] ''What is the capital of France?'' 3 2
       [''known''] [''https://example.org/seen'']
     = \<lparr>learnings = [''known''], visited_urls = [''https://example.org/seen'']\<rparr>"
  using empty_plan_returns_seed [of failing_planner_services "[]"
      "''What is the capital of France?''" 3 "[''known'']" ServiceError 2 "[''https://example.org/seen'']"]
  by (simp add: failing_planner_services_def stub_services_def)

section \<open>Duplicates in the result\<close>

text \<open>
  C3, as the code has it. When the planner yields at least one query, or when the seed
  lists are free of duplicates, the findings and the sources of the result are free of
  duplicates. (On the early return the result is the seed lists as they were given.)
\<close>

theorem merged_result_distinct:
  "generate_serp_queries sv cid q breadth ls \<noteq> [] \<or> (distinct ls \<and> distinct us) \<Longrightarrow>
   distinct (learnings (deep_research sv cid q breadth depth ls us)) \<and>
   distinct (visited_urls (deep_research sv cid q breadth depth ls us))"
  by (auto simp: deep_research_eq Let_def merge_results_def)

theorem merged_result_distinct_witness:
  "generate_serp_queries stub_services [] ''What is the capital of France?'' 2
      [''Paris is the capital of France'', ''Paris is the capital of France''] \<noteq> [] \<and>
   distinct (learnings (deep_research stub_services [] ''What is the capital of France?'' 2 1
      [''Paris is the capital of France'', ''Paris is the capital of France'']
      [''https://example.org/paris'', ''https://example.org/paris''])) \<and>
   distinct (visited_urls (deep_research stub_services [] ''What is the capital of France?'' 2 1
      [''Paris is the capital of France'', ''Paris is the capital of France'']
      [''https://example.org/paris'', ''https://example.org/paris'']))"
proof -
  have ne: "generate_serp_queries stub_services [] ''What is the capital of France?'' 2
      [''Paris is the capital of France'', ''Paris is the capital of France''] \<noteq> []"
    by (simp add: stub_plan py_prefix_def)
  show ?thesis
    using ne merged_result_distinct [of stub_services "[]" "''What is the capital of France?''" 2
      "[''Paris is the capital of France'', ''Paris is the capital of France'']"
      "[''https://example.org/paris'', ''https://example.org/paris'']" 1]
    by blast
qed

text \<open>
  C3 as stated fails on the early return: with no query planned, seeds that hold a
  finding twice come back as they are.
\<close>

theorem early_return_keeps_duplicates:
  "generate_serp_queries failing_planner_services [] ''What is the capital of France?'' 3
      [''known'', ''known''] = [] \<and>
   deep_research failing_planner_services [] ''What is the capital of France?'' 3 2
      [''known'', ''known''] [] = \<lparr>learnings = [''known'', ''known''], visited_urls = []\<rparr> \<and>
   \<not> distinct (learnings (deep_research failing_planner_services []
      ''What is the capital of France?'' 3 2 [''known'', ''known''] []))"
  by (simp add: deep_research_eq generate_serp_queries_def failing_planner_services_def
      stub_services_def)

section \<open>A branch that fails\<close>

text \<open>
  C2, as the code has it. Let the call have the branches \<open>qs\<close>, and let an exception
  leave the body of branch \<open>i\<close>: the search raised, or something after it inside the
  \<^verbatim>\<open>try\<close> did. Then the branch yields the empty result (not the seeds it was given), and
  the findings and the sources the call returns are the seeds together with the results
  of the other branches. The call itself raises nothing: its result is a
  \<open>ResearchResult\<close>.
\<close>

theorem failed_branch_contributes_nothing:
  assumes "qs = generate_serp_queries sv cid q breadth ls"
    and "i < length qs"
    and "process_query_try sv (cid @ [i]) breadth depth ls us (qs ! i) = Inl e"
  shows "process_query sv (cid @ [i]) breadth depth ls us (qs ! i) =
           \<lparr>learnings = [], visited_urls = []\<rparr> \<and>
    set (learnings (deep_research sv cid q breadth depth ls us)) =
      set ls \<union> (\<Union>j\<in>{j. j < length qs \<and> j \<noteq> i}.
                   set (learnings (process_query sv (cid @ [j]) breadth depth ls us (qs ! j)))) \<and>
    set (visited_urls (deep_research sv cid q breadth depth ls us)) =
      set us \<union> (\<Union>j\<in>{j. j < length qs \<and> j \<noteq> i}.
                   set (visited_urls (process_query sv (cid @ [j]) breadth depth ls us (qs ! j))))"
proof -
  have f: "process_query sv (cid @ [i]) breadth depth ls us (qs ! i) =
             \<lparr>learnings = [], visited_urls = []\<rparr>"
    using assms(3) by (simp add: process_query_eq)
  have ne: "qs \<noteq> []" using assms(2) by auto
  let ?b = "\<lambda>j. process_query sv (cid @ [j]) breadth depth ls us (qs ! j)"
  have dr: "deep_research sv cid q breadth depth ls us =
              merge_results sv ls us (map ?b [0..<length qs])"
    using ne assms(1) by (simp add: deep_research_eq Let_def enumerate_branches)
  have "(\<Union>j\<in>{0..<length qs}. set (learnings (?b j))) =
        (\<Union>j\<in>{j. j < length qs \<and> j \<noteq> i}. set (learnings (?b j)))"
    using f by auto
  moreover have "(\<Union>j\<in>{0..<length qs}. set (visited_urls (?b j))) =
        (\<Union>j\<in>{j. j < length qs \<and> j \<noteq> i}. set (visited_urls (?b j)))"
    using f by auto
  ultimately show ?thesis using f by (simp add: dr merge_results_def comp_def)
qed

theorem failed_branch_contributes_nothing_witness:
  "(1::nat) < length (generate_serp_queries failing_branch_services []
                        ''What is the capital of France?'' 2 [''known'']) \<and>
   process_query_try failing_branch_services [1] 2 1 [''known''] [''https://example.org/seen'']
     (generate_serp_queries failing_branch_services []
        ''What is the capital of France?'' 2 [''known''] ! 1) = Inl ServiceError \<and>
   process_query failing_branch_services [1] 2 1 [''known''] [''https://example.org/seen'']
     (generate_serp_queries failing_branch_services []
        ''What is the capital of France?'' 2 [''known''] ! 1)
     = \<lparr>learnings = [], visited_urls = []\<rparr> \<and>
   set (learnings (deep_research failing_branch_services [] ''What is the capital of France?'' 2 1
          [''known''] [''https://example.org/seen''])) =
     {''known'', ''Paris is the capital of France''} \<and>
   set (visited_urls (deep_research failing_branch_services [] ''What is the capital of France?'' 2 1
          [''known''] [''https://example.org/seen''])) =
     {''https://example.org/seen'', ''https://example.org/paris'', ''https://example.org/blank''}"
proof -
  let ?F = failing_branch_services
  let ?Q = "''What is the capital of France?''"
  let ?qs = "generate_serp_queries ?F [] ?Q 2 [''known'']"
  have qs: "?qs = [\<lparr>query = Some ''capital of France'', research_goal = Some ''identify capital''\<rparr>,
                  \<lparr>query = Some ''seat of the French government'',
                   research_goal = Some ''cross-check''\<rparr>]"
    by (simp add: generate_serp_queries_def failing_branch_services_def stub_services_def
        py_prefix_def get_default_def subscript_def)
  have len: "1 < length ?qs" by (simp add: qs)
  have fail: "process_query_try ?F ([] @ [1]) 2 1 [''known''] [''https://example.org/seen'']
                (?qs ! 1) = Inl ServiceError"
    by (rule process_query_try_search_raises) (simp add: failing_branch_services_def)
  have others: "{j. j < length ?qs \<and> j \<noteq> 1} = {0}" by (auto simp: qs)
  have b0: "process_query ?F [0] 2 1 [''known''] [''https://example.org/seen''] (?qs ! 0) =
     \<lparr>learnings = [''known'', ''Paris is the capital of France''],
      visited_urls = [''https://example.org/seen'', ''https://example.org/paris'',
                      ''https://example.org/blank'']\<rparr>"
    unfolding qs by code_simp
  note th = failed_branch_contributes_nothing [OF refl len fail, unfolded others]
  from th have "set (learnings (deep_research ?F [] ?Q 2 1 [''known''] [''https://example.org/seen''])) =
      {''known'', ''Paris is the capital of France''}"
    by (auto simp: b0)
  moreover from th
  have "set (visited_urls (deep_research ?F [] ?Q 2 1 [''known''] [''https://example.org/seen''])) =
      {''https://example.org/seen'', ''https://example.org/paris'', ''https://example.org/blank''}"
    by (auto simp: b0)
  moreover from th
  have "process_query ?F [1] 2 1 [''known''] [''https://example.org/seen''] (?qs ! 1) =
      \<lparr>learnings = [], visited_urls = []\<rparr>"
    by simp
  moreover have "process_query_try ?F [1] 2 1 [''known''] [''https://example.org/seen'']
                (?qs ! 1) = Inl ServiceError"
    using fail by simp
  ultimately show ?thesis using len by blast
qed

text \<open>
  C2 as stated fails for an error of the completion service during the extraction. The
  extractor catches it and returns two empty lists, so the body of the branch goes on:
  here the second branch of a call at depth 1 returns the seeds it was given and the
  url its search found, not the empty result, and that url, which is neither a seed
  nor in the result of the other branch, is among the sources the call returns.
\<close>

theorem extraction_failure_keeps_the_branch:
  "extract_completion failing_extraction_services [1] (Some ''seat of the French government'')
     [''The government sits in Paris''] 3 1 = Inl ServiceError \<and>
   process_serp_result failing_extraction_services [1] (Some ''seat of the French government'')
     (Some [\<lparr>url = Some ''https://example.org/versailles'', content = None,
             markdown = Some ''The government sits in Paris''\<rparr>]) 3 1 =
     \<lparr>ex_learnings = [], ex_follow_up_questions = Some []\<rparr> \<and>
   process_query failing_extraction_services [1] 2 1 [''known''] [''https://example.org/seen'']
     (generate_serp_queries failing_extraction_services []
        ''What is the capital of France?'' 2 [''known''] ! 1) =
     \<lparr>learnings = [''known''],
      visited_urls = [''https://example.org/seen'', ''https://example.org/versailles'']\<rparr> \<and>
   process_query failing_extraction_services [0] 2 1 [''known''] [''https://example.org/seen'']
     (generate_serp_queries failing_extraction_services []
        ''What is the capital of France?'' 2 [''known''] ! 0) =
     \<lparr>learnings = [''known'', ''Paris is the capital of France''],
      visited_urls = [''https://example.org/seen'', ''https://example.org/paris'',
                      ''https://example.org/blank'']\<rparr> \<and>
   set (learnings (deep_research failing_extraction_services []
          ''What is the capital of France?'' 2 1 [''known''] [''https://example.org/seen''])) =
     {''known'', ''Paris is the capital of France''} \<and>
   set (visited_urls (deep_research failing_extraction_services []
          ''What is the capital of France?'' 2 1 [''known''] [''https://example.org/seen''])) =
     {''https://example.org/seen'', ''https://example.org/paris'', ''https://example.org/blank'',
      ''https://example.org/versailles''}"
proof -
  have 1: "extract_completion failing_extraction_services [1] (Some ''seat of the French government'')
     [''The government sits in Paris''] 3 1 = Inl ServiceError"
    by (simp add: failing_extraction_services_def)
  have 2: "process_serp_result failing_extraction_services [1] (Some ''seat of the French government'')
     (Some [\<lparr>url = Some ''https://example.org/versailles'', content = None,
             markdown = Some ''The government sits in Paris''\<rparr>]) 3 1 =
     \<lparr>ex_learnings = [], ex_follow_up_questions = Some []\<rparr>"
    by code_simp
  have 3: "process_query failing_extraction_services [1] 2 1 [''known''] [''https://example.org/seen'']
     (generate_serp_queries failing_extraction_services []
        ''What is the capital of France?'' 2 [''known''] ! 1) =
     \<lparr>learnings = [''known''],
      visited_urls = [''https://example.org/seen'', ''https://example.org/versailles'']\<rparr>"
    by code_simp
  have 4: "process_query failing_extraction_services [0] 2 1 [''known''] [''https://example.org/seen'']
     (generate_serp_queries failing_extraction_services []
        ''What is the capital of France?'' 2 [''known''] ! 0) =
     \<lparr>learnings = [''known'', ''Paris is the capital of France''],
      visited_urls = [''https://example.org/seen'', ''https://example.org/paris'',
                      ''https://example.org/blank'']\<rparr>"
    by code_simp
  have 5: "deep_research failing_extraction_services [] ''What is the capital of France?'' 2 1
     [''known''] [''https://example.org/seen''] =
     \<lparr>learnings = [''known'', ''Paris is the capital of France''],
      visited_urls = [''https://example.org/seen'', ''https://example.org/paris'',
                      ''https://example.org/blank'', ''https://example.org/versailles'']\<rparr>"
    by code_simp
  have 6: "set (learnings (deep_research failing_extraction_services []
          ''What is the capital of France?'' 2 1 [''known''] [''https://example.org/seen''])) =
     {''known'', ''Paris is the capital of France''}"
    unfolding 5 by simp
  have 7: "set (visited_urls (deep_research failing_extraction_services []
          ''What is the capital of France?'' 2 1 [''known''] [''https://example.org/seen''])) =
     {''https://example.org/seen'', ''https://example.org/paris'', ''https://example.org/blank'',
      ''https://example.org/versailles''}"
    unfolding 5 by simp
  show ?thesis by (simp only: 1 2 3 4 6 7 simp_thms)
qed

section \<open>Urls of pages without content\<close>




section \<open>The number of findings and follow-up questions\<close>

text \<open>
  C7 says that the extractor returns at most \<open>num_learnings\<close> findings and at most
  \<open>num_follow_up_questions\<close> follow-up questions whatever the completion service sends.
  \<^verbatim>\<open>process_serp_result\<close> writes both maxima into the prompt and the schema and returns
  the two lists of the answer as they are, where \<^verbatim>\<open>generate_serp_queries\<close> cuts its list
  with \<^verbatim>\<open>queries[:num_queries]\<close>: asked for at most 3 findings and 1 follow-up question,
  it returns the 4 findings and the 3 questions of the answer.
\<close>

theorem process_serp_result_exceeds_maxima:
  "process_serp_result generous_extract_services [0] (Some ''capital of France'')
     (Some [\<lparr>url = Some ''https://example.org/paris'', content = None,
             markdown = Some ''Paris is the capital of France''\<rparr>]) 3 1 =
     \<lparr>ex_learnings = [''Paris is in France'', ''Paris is a capital'',
                       ''France is a republic'', ''France is in Europe''],
      ex_follow_up_questions = Some [''Since when?'', ''Who decided?'', ''Which river?'']\<rparr> \<and>
   length (ex_learnings (process_serp_result generous_extract_services [0] (Some ''capital of France'')
     (Some [\<lparr>url = Some ''https://example.org/paris'', content = None,
             markdown = Some ''Paris is the capital of France''\<rparr>]) 3 1)) = 4 \<and>
   map_option length (ex_follow_up_questions (process_serp_result generous_extract_services [0]
     (Some ''capital of France'')
     (Some [\<lparr>url = Some ''https://example.org/paris'', content = None,
             markdown = Some ''Paris is the capital of France''\<rparr>]) 3 1)) = Some 3"
  by code_simp

section \<open>The semaphore\<close>

text \<open>
  \<^verbatim>\<open>CONCURRENCY_LIMIT = int(os.getenv("TAVILY_CONCURRENCY", "2"))\<close>, at its default.
\<close>

definition CONCURRENCY_LIMIT :: nat where
  "CONCURRENCY_LIMIT = 2"

text \<open>
  What the scheduler sees of a run. Every call of \<^verbatim>\<open>deep_research\<close> makes a semaphore of
  its own (\<^verbatim>\<open>semaphore = asyncio.Semaphore(CONCURRENCY_LIMIT)\<close> is a local of the call)
  and starts one task for each of its queries with \<^verbatim>\<open>asyncio.gather\<close>. A task waits at
  \<^verbatim>\<open>async with semaphore\<close>, then runs its body holding a slot of the semaphore of its
  call; the body either returns, or awaits the recursive \<^verbatim>\<open>deep_research\<close> call inside
  the \<^verbatim>\<open>async with\<close> block and so keeps the slot until that call has returned.
\<close>

datatype branch_state =
    Waiting                 \<comment> \<open>at \<^verbatim>\<open>async with semaphore\<close>, without a slot\<close>
  | Running                 \<comment> \<open>in the body, holding a slot: searching and extracting\<close>
  | Awaiting call_state     \<comment> \<open>in the body, holding the slot: awaiting its recursive call\<close>
  | Finished                \<comment> \<open>the body has returned and the slot is free\<close>
  and call_state = Branches "branch_state list"

text \<open>
  What a task can do next: take a slot, call \<^verbatim>\<open>deep_research\<close> (which plans \<open>n\<close> queries
  and starts their tasks), or return. The scheduler may pick any task that can move, in
  any order.
\<close>

datatype action = Acquire | Recurse nat | Return

fun holds_slot :: "branch_state \<Rightarrow> bool" where
  "holds_slot Running = True"
| "holds_slot (Awaiting c) = True"
| "holds_slot b = False"

definition holders :: "branch_state list \<Rightarrow> nat" where
  "holders bs = length (filter holds_slot bs)"

text \<open>One step of the task \<open>b\<close> among the tasks \<open>bs\<close> of its call: a slot is taken only
  while fewer than \<open>cap\<close> tasks of the same call hold one, and a task that awaits a call
  returns when all tasks of that call have finished.\<close>

fun fire_branch :: "nat \<Rightarrow> action \<Rightarrow> branch_state list \<Rightarrow> branch_state \<Rightarrow> branch_state option" where
  "fire_branch cap Acquire bs Waiting = (if holders bs < cap then Some Running else None)"
| "fire_branch cap (Recurse n) bs Running = Some (Awaiting (Branches (replicate n Waiting)))"
| "fire_branch cap Return bs Running = Some Finished"
| "fire_branch cap Return bs (Awaiting (Branches cs)) =
     (if list_all (\<lambda>c. c = Finished) cs then Some Finished else None)"
| "fire_branch cap a bs b = None"

text \<open>The step of the task at a position in the tree of calls.\<close>

fun fire :: "nat \<Rightarrow> action \<Rightarrow> nat list \<Rightarrow> call_state \<Rightarrow> call_state option" where
  "fire cap a [] c = None"
| "fire cap a [i] (Branches bs) =
     (if i < length bs
      then (case fire_branch cap a bs (bs ! i) of
              None \<Rightarrow> None
            | Some b \<Rightarrow> Some (Branches (bs[i := b])))
      else None)"
| "fire cap a (i # j # p) (Branches bs) =
     (if i < length bs
      then (case bs ! i of
              Awaiting c \<Rightarrow>
                (case fire cap a (j # p) c of
                   None \<Rightarrow> None
                 | Some c' \<Rightarrow> Some (Branches (bs[i := Awaiting c'])))
            | _ \<Rightarrow> None)
      else None)"

fun run_events :: "nat \<Rightarrow> (nat list \<times> action) list \<Rightarrow> call_state \<Rightarrow> call_state option" where
  "run_events cap [] c = Some c"
| "run_events cap ((p, a) # evs) c =
     (case fire cap a p c of None \<Rightarrow> None | Some c' \<Rightarrow> run_events cap evs c')"

text \<open>The number of branch bodies in flight in the whole tree of calls.\<close>

fun in_flight :: "call_state \<Rightarrow> nat"
  and in_flight_branch :: "branch_state \<Rightarrow> nat" where
  "in_flight (Branches bs) = sum_list (map in_flight_branch bs)"
| "in_flight_branch Waiting = 0"
| "in_flight_branch Running = 1"
| "in_flight_branch (Awaiting c) = Suc (in_flight c)"
| "in_flight_branch Finished = 0"

text \<open>In every call of the tree, at most \<open>cap\<close> tasks hold a slot.\<close>

fun slots_ok :: "nat \<Rightarrow> call_state \<Rightarrow> bool"
  and slots_ok_branch :: "nat \<Rightarrow> branch_state \<Rightarrow> bool" where
  "slots_ok cap (Branches bs) = (holders bs \<le> cap \<and> list_all (slots_ok_branch cap) bs)"
| "slots_ok_branch cap (Awaiting c) = slots_ok cap c"
| "slots_ok_branch cap Waiting = True"
| "slots_ok_branch cap Running = True"
| "slots_ok_branch cap Finished = True"

lemma holders_update:
  "i < length bs \<Longrightarrow>
   holders (bs[i := b]) + (if holds_slot (bs ! i) then 1 else 0) =
   holders bs + (if holds_slot b then 1 else 0)"
proof (induction bs arbitrary: i)
  case Nil
  then show ?case by simp
next
  case (Cons x xs)
  show ?case
  proof (cases i)
    case 0
    then show ?thesis by (simp add: holders_def)
  next
    case (Suc k)
    with Cons.prems have "k < length xs" by simp
    from Cons.IH[OF this] Suc show ?thesis by (simp add: holders_def)
  qed
qed

lemma list_all_update:
  "list_all P bs \<Longrightarrow> P b \<Longrightarrow> list_all P (bs[i := b])"
  by (auto simp: list_all_iff dest: set_update_subset_insert[THEN subsetD])

lemma fire_branch_ok:
  assumes "fire_branch cap a bs (bs ! i) = Some b" and "i < length bs"
    and "holders bs \<le> cap"
  shows "holders (bs[i := b]) \<le> cap \<and> slots_ok_branch cap b"
proof (cases a)
  case Acquire
  with assms(1) have w: "bs ! i = Waiting" "holders bs < cap" "b = Running"
    by (cases "bs ! i"; simp split: if_splits)+
  with holders_update[OF assms(2), of b] show ?thesis by simp
next
  case (Recurse n)
  with assms(1) have w: "bs ! i = Running" "b = Awaiting (Branches (replicate n Waiting))"
    by (cases "bs ! i"; simp)+
  have "holders (replicate n Waiting) = 0" by (simp add: holders_def)
  moreover have "list_all (slots_ok_branch cap) (replicate n Waiting)"
    by (simp add: list_all_iff)
  ultimately show ?thesis using holders_update[OF assms(2), of b] assms(3) w by simp
next
  case Return
  have w: "b = Finished"
  proof (cases "bs ! i")
    case (Awaiting c0)
    obtain cs where "c0 = Branches cs" by (cases c0)
    with Awaiting Return assms(1) show ?thesis by (simp split: if_splits)
  qed (use Return assms(1) in simp_all)
  with holders_update[OF assms(2), of b] assms(3) show ?thesis by (simp split: if_splits)
qed

lemma fire_ok: "fire cap a p c = Some c' \<Longrightarrow> slots_ok cap c \<Longrightarrow> slots_ok cap c'"
proof (induction cap a p c arbitrary: c' rule: fire.induct)
  case (1 cap a c)
  then show ?case by simp
next
  case (2 cap a i bs)
  from "2.prems"(1) obtain b where i: "i < length bs"
    and fb: "fire_branch cap a bs (bs ! i) = Some b" and c': "c' = Branches (bs[i := b])"
    by (auto split: if_splits option.splits)
  from "2.prems"(2) have h: "holders bs \<le> cap" and all: "list_all (slots_ok_branch cap) bs" by simp_all
  from fire_branch_ok[OF fb i h] list_all_update[OF all] show ?case by (simp add: c')
next
  case (3 cap a i j p bs)
  from "3.prems"(1) obtain c0 c1 where i: "i < length bs" and aw: "bs ! i = Awaiting c0"
    and f: "fire cap a (j # p) c0 = Some c1" and c': "c' = Branches (bs[i := Awaiting c1])"
    by (auto split: if_splits option.splits branch_state.splits)
  from "3.prems"(2) have h: "holders bs \<le> cap" and all: "list_all (slots_ok_branch cap) bs" by simp_all
  from i have "bs ! i \<in> set bs" by (rule nth_mem)
  with all have "slots_ok_branch cap (bs ! i)" by (simp add: list_all_iff)
  then have "slots_ok cap c0" by (simp add: aw)
  with "3.IH"[OF i aw f] have "slots_ok_branch cap (Awaiting c1)" by simp
  moreover from holders_update[OF i, of "Awaiting c1"] aw h
  have "holders (bs[i := Awaiting c1]) \<le> cap" by simp
  ultimately show ?case using list_all_update[OF all] by (simp add: c')
qed

lemma run_events_ok: "run_events cap evs c = Some c' \<Longrightarrow> slots_ok cap c \<Longrightarrow> slots_ok cap c'"
  by (induction cap evs c rule: run_events.induct) (auto split: option.splits dest: fire_ok)

text \<open>
  C9, as the code has it. The semaphore belongs to one call of \<^verbatim>\<open>deep_research\<close>: in every
  state a run can reach, under any schedule, every call of the tree has at most
  \<open>cap\<close> of its own branches in flight.
\<close>

theorem semaphore_bounds_each_call:
  "run_events cap evs (Branches (replicate n Waiting)) = Some c \<Longrightarrow> slots_ok cap c"
proof -
  have "slots_ok cap (Branches (replicate n Waiting))"
    by (simp add: holders_def list_all_iff)
  then show "run_events cap evs (Branches (replicate n Waiting)) = Some c \<Longrightarrow> slots_ok cap c"
    by (rule run_events_ok[rotated])
qed

theorem semaphore_bounds_each_call_witness:
  "run_events CONCURRENCY_LIMIT
     [([0], Acquire), ([0], Recurse 1), ([1], Acquire), ([1], Recurse 1), ([0, 0], Acquire)]
     (Branches (replicate 2 Waiting)) =
     Some (Branches [Awaiting (Branches [Running]), Awaiting (Branches [Waiting])]) \<and>
   slots_ok CONCURRENCY_LIMIT (Branches [Awaiting (Branches [Running]), Awaiting (Branches [Waiting])]) \<and>
   fire CONCURRENCY_LIMIT Acquire [2] (Branches [Running, Running, Waiting]) = None"
proof -
  have r: "run_events CONCURRENCY_LIMIT
     [([0], Acquire), ([0], Recurse 1), ([1], Acquire), ([1], Recurse 1), ([0, 0], Acquire)]
     (Branches (replicate 2 Waiting)) =
     Some (Branches [Awaiting (Branches [Running]), Awaiting (Branches [Waiting])])"
    by (simp add: CONCURRENCY_LIMIT_def holders_def numeral_2_eq_2)
  have "fire CONCURRENCY_LIMIT Acquire [2] (Branches [Running, Running, Waiting]) = None"
    by (simp add: CONCURRENCY_LIMIT_def holders_def)
  with r semaphore_bounds_each_call [OF r] show ?thesis by simp
qed

text \<open>
  C9 as stated fails: across the tree more than \<open>CONCURRENCY_LIMIT\<close> branch bodies are in
  flight. A first call with breadth 2 and depth 2 has two branches, and each of them
  makes a call with one branch. Both branches of the first call take a slot and await
  their calls; the branch of the first of these calls takes a slot of the new semaphore
  of its call: three branch bodies are in flight, with a capacity of two.
\<close>

theorem semaphore_does_not_bound_the_tree:
  "call_tree stub_services [] ''What is the capital of France?'' 2 2 [] [] =
     Call 2 2 [Call 1 1 [], Call 1 1 []] \<and>
   CONCURRENCY_LIMIT = 2 \<and>
   map_option in_flight (run_events CONCURRENCY_LIMIT
     [([0], Acquire), ([0], Recurse 1), ([1], Acquire), ([1], Recurse 1), ([0, 0], Acquire)]
     (Branches (replicate 2 Waiting))) = Some 3"
proof -
  have "call_tree stub_services [] ''What is the capital of France?'' 2 2 [] [] =
     Call 2 2 [Call 1 1 [], Call 1 1 []]"
    by code_simp
  moreover have "map_option in_flight (run_events CONCURRENCY_LIMIT
     [([0], Acquire), ([0], Recurse 1), ([1], Acquire), ([1], Recurse 1), ([0, 0], Acquire)]
     (Branches (replicate 2 Waiting))) = Some 3"
    by (simp add: CONCURRENCY_LIMIT_def holders_def numeral_2_eq_2)
  ultimately show ?thesis by (simp add: CONCURRENCY_LIMIT_def)
qed

end
